theory Spec2Isabelle
  imports Main "HOL-Library.AList"
begin

section \<open>Python values, exceptions and the execution environment\<close>

text \<open>
  The tasks of \<^verbatim>\<open>executioner/tasks.py\<close> share one dict, \<^verbatim>\<open>env\<close>, whose values are
  strings, numbers, lists, XML elements and handles of mutable objects (processes, pipes,
  sockets, \<^verbatim>\<open>StringIO\<close> buffers). Values are a datatype; a handle is a reference into a
  heap of objects, so that two keys of the dict may hold the same object.
\<close>

type_synonym ref = nat

datatype val =
    VNone
  | VBool bool
  | VInt int
  | VStr string
  | VList "val list"
  | VElem val \<comment> \<open>an XML element; the argument is its \<^verbatim>\<open>.text\<close>\<close>
  | VRef ref \<comment> \<open>a handle of an object of the heap\<close>

text \<open>
  A message that the source builds with \<^verbatim>\<open>"..." + str(x) + "..."\<close> is kept as its pieces:
  the literal parts and the values that \<^verbatim>\<open>str\<close> is applied to.
\<close>

datatype piece = Lit string | StrOf val

datatype exn =
    TaskError "piece list"
  | KeyError string
  | AttributeError
  | ValueError
  | TypeError
  | NameError
  | IOError
  | SocketError \<comment> \<open>\<^verbatim>\<open>socket.error\<close>\<close>
  | LibError string \<comment> \<open>raised by a library call that is a parameter of the model\<close>

datatype outcome = Ok | Raised exn

text \<open>\<^verbatim>\<open>isinstance(v, str)\<close> and \<^verbatim>\<open>isinstance(v, list)\<close>.\<close>

fun is_str :: "val \<Rightarrow> bool" where
  "is_str (VStr s) = True"
| "is_str v = False"

fun is_list :: "val \<Rightarrow> bool" where
  "is_list (VList xs) = True"
| "is_list v = False"

text \<open>
  Python's \<^verbatim>\<open>==\<close> between an \<^verbatim>\<open>int\<close> and another value: a number (an \<^verbatim>\<open>int\<close> or a
  \<^verbatim>\<open>bool\<close>, which is \<^verbatim>\<open>0\<close> or \<^verbatim>\<open>1\<close>) of the same value is equal, anything else is not.
  \<open>int_in c xs\<close> is \<^verbatim>\<open>c in xs\<close> for an \<^verbatim>\<open>int\<close> \<^verbatim>\<open>c\<close> and a list \<^verbatim>\<open>xs\<close>.
\<close>

fun num_of :: "val \<Rightarrow> int option" where
  "num_of (VInt i) = Some i"
| "num_of (VBool b) = Some (if b then 1 else 0)"
| "num_of v = None"

definition int_in :: "int \<Rightarrow> val list \<Rightarrow> bool" where
  "int_in c xs = (Some c \<in> set (map num_of xs))"

subsection \<open>Objects of the heap\<close>

text \<open>
  A \<^verbatim>\<open>StringIO\<close> buffer is its content and its cursor. A readable stream (a pipe from a
  child process, the file object of a socket) is the data that will still arrive and what
  happens after it: the peer closes the stream (\<^verbatim>\<open>readline\<close> returns what is left, possibly
  the empty string), nothing more ever arrives (\<^verbatim>\<open>readline\<close> never returns) or the
  transport fails (\<^verbatim>\<open>readline\<close> raises).
\<close>

record sio =
  buf :: string
  pos :: nat

datatype ending = Eof | Blocks | Fails

record reader =
  pending :: string
  ending :: ending

text \<open>
  A socket object knows whether \<^verbatim>\<open>close()\<close> and \<^verbatim>\<open>shutdown(1)\<close> were called on it.
  \<open>s_connected\<close> is the state of its connection in the operating system: it holds from
  \<^verbatim>\<open>connect\<close> on, until the peer resets the connection, which can happen at any time and
  which no task of the environment controls.
\<close>

record sock =
  s_closed :: bool
  s_shut_wr :: bool
  s_connected :: bool

text \<open>
  A process handle has the three stream attributes of \<^verbatim>\<open>subprocess.Popen\<close> (\<^verbatim>\<open>None\<close> for
  a stream that is not a pipe) and the exit code that \<^verbatim>\<open>wait()\<close> will return; \<open>None\<close>
  there is a process that never terminates, on which \<^verbatim>\<open>wait()\<close> never returns.
\<close>

record proc =
  p_stdin :: val
  p_stdout :: val
  p_stderr :: val
  p_exit :: "int option"

datatype obj =
    OProcess proc
  | OStdin string \<comment> \<open>the write end of the child's input, with what was written\<close>
  | OPipe reader \<comment> \<open>the read end of the child's output or error stream\<close>
  | OSocket sock
  | OSockFile reader \<comment> \<open>\<^verbatim>\<open>socket.makefile()\<close>\<close>
  | OStringIO sio

record world =
  env :: "(string \<times> val) list"
  heap :: "obj list"

fun deref :: "obj list \<Rightarrow> val \<Rightarrow> obj option" where
  "deref h (VRef r) = (if r < length h then Some (h ! r) else None)"
| "deref h v = None"

text \<open>\<^verbatim>\<open>k in env\<close>, \<^verbatim>\<open>env[k]\<close> (a missing key raises \<^verbatim>\<open>KeyError\<close>), \<^verbatim>\<open>env[k] = v\<close>
  and \<^verbatim>\<open>del env[k]\<close>.\<close>

definition has_key :: "(string \<times> val) list \<Rightarrow> string \<Rightarrow> bool" where
  "has_key e k = (map_of e k \<noteq> None)"

definition getitem :: "(string \<times> val) list \<Rightarrow> string \<Rightarrow> exn + val" where
  "getitem e k = (case map_of e k of None \<Rightarrow> Inl (KeyError k) | Some v \<Rightarrow> Inr v)"

definition setitem :: "string \<Rightarrow> val \<Rightarrow> world \<Rightarrow> world" where
  "setitem k v w = w\<lparr>env := AList.update k v (env w)\<rparr>"

definition delitem :: "string \<Rightarrow> world \<Rightarrow> world" where
  "delitem k w = w\<lparr>env := AList.delete k (env w)\<rparr>"

section \<open>CheckExitCode\<close>

text \<open>
  \<^verbatim>\<open>CheckExitCode.__init__(ok=0)\<close>: an \<^verbatim>\<open>ok\<close> that is not a list becomes the list of that
  one value. The task is its list \<^verbatim>\<open>self.ok\<close>.
\<close>

definition CheckExitCode_init :: "val \<Rightarrow> val list" where
  "CheckExitCode_init ok = (case ok of VList xs \<Rightarrow> xs | _ \<Rightarrow> [ok])"

definition CheckExitCode_default :: "val list" where
  "CheckExitCode_default = CheckExitCode_init (VInt 0)"

text \<open>\<^verbatim>\<open>env["PROCESS"].wait()\<close>: only a process handle has the method.\<close>

definition m_wait :: "obj list \<Rightarrow> val \<Rightarrow> (exn + int) option" where
  "m_wait h v =
     (case deref h v of
        Some (OProcess p) \<Rightarrow> (case p_exit p of None \<Rightarrow> None | Some c \<Rightarrow> Some (Inr c))
      | _ \<Rightarrow> Some (Inl AttributeError))"

text \<open>
  \<^verbatim>\<open>CheckExitCode.run\<close>. The result \<open>None\<close> is a call that never returns. An exception
  leaves the environment as it was when it was raised: the exit code is stored before it
  is compared.
\<close>

definition CheckExitCode_run :: "val list \<Rightarrow> world \<Rightarrow> (outcome \<times> world) option" where
  "CheckExitCode_run ok w =
     (if \<not> has_key (env w) ''PROCESS''
      then Some (Raised (TaskError [Lit ''PROCESS not set, call Execute before CheckExitCode'']), w)
      else case getitem (env w) ''PROCESS'' of
        Inl e \<Rightarrow> Some (Raised e, w)
      | Inr p \<Rightarrow>
         (case m_wait (heap w) p of
            None \<Rightarrow> None
          | Some (Inl e) \<Rightarrow> Some (Raised e, w)
          | Some (Inr c) \<Rightarrow>
             (let w' = setitem ''EXIT_CODE'' (VInt c) w in
              if \<not> int_in c ok
              then Some (Raised (TaskError [Lit ''Execute failed, expected exit code '',
                      StrOf (VList ok), Lit '', received '', StrOf (VInt c)]), w')
              else Some (Ok, w'))))"

section \<open>Library calls that are parameters\<close>

text \<open>
  \<^verbatim>\<open>utils.substitute\<close> and \<^verbatim>\<open>utils.process_monitor\<close> belong to the module
  \<^verbatim>\<open>utils\<close>, and \<^verbatim>\<open>shlex.split\<close>, \<^verbatim>\<open>subprocess.Popen\<close> and \<^verbatim>\<open>socket.connect\<close> talk to the
  operating system: they are parameters of the model, and each may raise.
  \<^item> \<open>popen\<close> gives the child that the operating system starts for an argument vector:
    what it will write to its output and error streams, and the exit code it ends with;
  \<^item> \<open>process_monitor\<close> is the effect of the watchdog thread on that exit code, for the
    \<^verbatim>\<open>timeout\<close> of the task;
  \<^item> \<open>sock_connect\<close> is \<^verbatim>\<open>s.connect((server, int(port)))\<close>: it raises (also when
    \<^verbatim>\<open>int(port)\<close> does) or gives the stream of what the peer will send.
\<close>

record child =
  c_stdout :: reader
  c_stderr :: reader
  c_exit :: "int option"

datatype port = PNone | PStr string | PInt int

record sys =
  substitute :: "string \<Rightarrow> (string \<times> val) list \<Rightarrow> exn + string"
  shlex_split :: "string \<Rightarrow> exn + string list"
  popen :: "string list \<Rightarrow> exn + child"
  process_monitor :: "val \<Rightarrow> int option \<Rightarrow> int option"
  sock_connect :: "string \<Rightarrow> port \<Rightarrow> exn + reader"

section \<open>Execute\<close>

record execute =
  command :: string
  timeout :: val
  ignore_stdout :: bool
  ignore_stderr :: bool

text \<open>
  \<^verbatim>\<open>subprocess.Popen(argv, stdin=PIPE, stdout=None if ignore_stdout else PIPE,
  stderr=None if ignore_stderr else PIPE)\<close> for a child that the operating system has
  started: the new objects are added to the heap, and the result is the handle of the
  process.
\<close>

definition Popen :: "child \<Rightarrow> bool \<Rightarrow> bool \<Rightarrow> obj list \<Rightarrow> ref \<times> obj list" where
  "Popen ch no_out no_err h =
     (let i = length h;
          h1 = h @ [OStdin []];
          out = (if no_out then VNone else VRef (length h1));
          h2 = (if no_out then h1 else h1 @ [OPipe (c_stdout ch)]);
          err = (if no_err then VNone else VRef (length h2));
          h3 = (if no_err then h2 else h2 @ [OPipe (c_stderr ch)])
      in (length h3,
          h3 @ [OProcess \<lparr>p_stdin = VRef i, p_stdout = out, p_stderr = err, p_exit = c_exit ch\<rparr>]))"

text \<open>The attributes \<^verbatim>\<open>process.stdin\<close>, \<^verbatim>\<open>process.stdout\<close>, \<^verbatim>\<open>process.stderr\<close> of the
  handle that \<open>Popen\<close> returned.\<close>

definition proc_of :: "obj list \<Rightarrow> ref \<Rightarrow> proc" where
  "proc_of h p = (case h ! p of OProcess pr \<Rightarrow> pr
     | _ \<Rightarrow> \<lparr>p_stdin = VNone, p_stdout = VNone, p_stderr = VNone, p_exit = None\<rparr>)"

text \<open>The thread that runs \<^verbatim>\<open>utils.process_monitor(process, timeout=...)\<close> is given the
  process only; it decides how the process ends.\<close>

definition start_monitor :: "sys \<Rightarrow> val \<Rightarrow> ref \<Rightarrow> obj list \<Rightarrow> obj list" where
  "start_monitor sy tmo p h =
     h[p := OProcess ((proc_of h p)\<lparr>p_exit := process_monitor sy tmo (p_exit (proc_of h p))\<rparr>)]"

definition Execute_run :: "sys \<Rightarrow> execute \<Rightarrow> world \<Rightarrow> outcome \<times> world" where
  "Execute_run sy t w =
     (case substitute sy (command t) (env w) of
        Inl e \<Rightarrow> (Raised e, w)
      | Inr cmd \<Rightarrow>
     (case shlex_split sy cmd of
        Inl e \<Rightarrow> (Raised e, w)
      | Inr argv \<Rightarrow>
     (case popen sy argv of
        Inl e \<Rightarrow> (Raised e, w)
      | Inr ch \<Rightarrow>
         (let (process, h) = Popen ch (ignore_stdout t) (ignore_stderr t) (heap w);
              w1 = setitem ''PROCESS'' (VRef process) (w\<lparr>heap := h\<rparr>);
              w2 = setitem ''STDIN'' (p_stdin (proc_of h process)) w1;
              w3 = (if \<not> ignore_stdout t
                    then setitem ''STDOUT'' (p_stdout (proc_of h process)) w2 else w2);
              w4 = (if \<not> ignore_stderr t
                    then setitem ''STDERR'' (p_stderr (proc_of h process)) w3 else w3)
          in (Ok, w4\<lparr>heap := start_monitor sy (timeout t) process (heap w4)\<rparr>)))))"

section \<open>Return\<close>

text \<open>
  \<^verbatim>\<open>unwanted = set(env.keys()) - set(self.fields)\<close>, then \<^verbatim>\<open>del env[key]\<close> for each of
  them. The order in which Python walks the set is not fixed; \<open>Return_del\<close> deletes a
  given sequence of keys, and \<open>Return_run\<close> takes them in the order of the environment.
\<close>

definition unwanted :: "string list \<Rightarrow> (string \<times> val) list \<Rightarrow> string list" where
  "unwanted fs e = remdups (filter (\<lambda>k. k \<notin> set fs) (map fst e))"

fun Return_del :: "string list \<Rightarrow> world \<Rightarrow> outcome \<times> world" where
  "Return_del [] w = (Ok, w)"
| "Return_del (key # keys) w =
     (if has_key (env w) key then Return_del keys (delitem key w)
      else (Raised (KeyError key), w))"

definition Return_run :: "string list \<Rightarrow> world \<Rightarrow> outcome \<times> world" where
  "Return_run fs w = Return_del (unwanted fs (env w)) w"

section \<open>Connect, Receive, Disconnect\<close>

record connect_task =
  server :: string
  port :: port

fun split_on :: "char \<Rightarrow> string \<Rightarrow> string list" where
  "split_on c [] = [] # []"
| "split_on c (x # xs) =
     (if x = c then [] # split_on c xs
      else (case split_on c xs of [] \<Rightarrow> [x] # [] | y # ys \<Rightarrow> (x # y) # ys))"

text \<open>Python's \<^verbatim>\<open>not x\<close> for an optional string and for a port.\<close>

fun falsy_str :: "string option \<Rightarrow> bool" where
  "falsy_str None = True"
| "falsy_str (Some s) = (s = [])"

fun falsy_port :: "port \<Rightarrow> bool" where
  "falsy_port PNone = True"
| "falsy_port (PStr s) = (s = [])"
| "falsy_port (PInt i) = (i = 0)"

text \<open>
  \<^verbatim>\<open>Connect.__init__(address=None, server=None, port=None)\<close>. The unpacking
  \<^verbatim>\<open>self.server, self.port = address.split(":")\<close> raises \<^verbatim>\<open>ValueError\<close> when the address
  has more than one colon.
\<close>

definition Connect_init :: "string option \<Rightarrow> string option \<Rightarrow> port \<Rightarrow> exn + connect_task" where
  "Connect_init address srv prt =
     (if falsy_str address \<and> (falsy_str srv \<or> falsy_port prt)
      then Inl (TaskError [Lit ''Connect must define an address or (server, port) pair''])
      else if \<not> falsy_str address
      then (if CHR '':'' \<notin> set (the address)
            then Inl (TaskError [Lit ''Address missing port number''])
            else (case split_on CHR '':'' (the address) of
                    [s, p] \<Rightarrow> Inr \<lparr>server = s, port = PStr p\<rparr>
                  | _ \<Rightarrow> Inl ValueError))
      else Inr \<lparr>server = the srv, port = prt\<rparr>)"

text \<open>
  \<^verbatim>\<open>Connect.run\<close>. The socket object exists in the heap once the connection is made; a
  socket whose \<^verbatim>\<open>connect\<close> raised is referenced by nothing.
\<close>

definition Connect_run :: "sys \<Rightarrow> connect_task \<Rightarrow> world \<Rightarrow> outcome \<times> world" where
  "Connect_run sy t w =
     (if has_key (env w) ''SOCKET''
      then (Raised (TaskError [Lit ''SOCKET already defined, close prior connection first'']), w)
      else case substitute sy (server t) (env w) of
        Inl e \<Rightarrow> (Raised e, w)
      | Inr srv \<Rightarrow>
     (case (case port t of
              PStr p \<Rightarrow> (case substitute sy p (env w) of Inl e \<Rightarrow> Inl e | Inr p' \<Rightarrow> Inr (PStr p'))
            | p \<Rightarrow> Inr p) of
        Inl e \<Rightarrow> (Raised e, w)
      | Inr prt \<Rightarrow>
     (case sock_connect sy srv prt of
        Inl e \<Rightarrow> (Raised e, w)
      | Inr incoming \<Rightarrow>
         (let s = length (heap w);
              w1 = setitem ''SOCKET'' (VRef s)
                     (w\<lparr>heap := heap w @ [OSocket \<lparr>s_closed = False, s_shut_wr = False,
                                        s_connected = True\<rparr>]\<rparr>);
              w2 = setitem ''SOCKET_FILE'' (VRef (length (heap w1)))
                     (w1\<lparr>heap := heap w1 @ [OSockFile incoming]\<rparr>);
              w3 = setitem ''STDOUT'' (VRef (length (heap w2)))
                     (w2\<lparr>heap := heap w2 @ [OStringIO \<lparr>buf = [], pos = 0\<rparr>]\<rparr>)
          in (Ok, w3)))))"

subsection \<open>The methods of \<^verbatim>\<open>StringIO\<close> and of readable streams\<close>

definition nl :: char where
  "nl = CHR 0x0A"

fun take_line :: "string \<Rightarrow> string" where
  "take_line [] = []"
| "take_line (c # cs) = (if c = nl then [c] else c # take_line cs)"

text \<open>
  \<^verbatim>\<open>StringIO.write(s)\<close> (Python 2): nothing for the empty string; at the end of the content
  it appends; beyond the end it pads with zero bytes first; before the end it overwrites.
  \<^verbatim>\<open>StringIO.readline()\<close> reads from the cursor to the next newline, or to the end.
\<close>

definition sio_write :: "string \<Rightarrow> sio \<Rightarrow> sio" where
  "sio_write s b =
     (if s = [] then b
      else if pos b = length (buf b) then \<lparr>buf = buf b @ s, pos = pos b + length s\<rparr>
      else if pos b > length (buf b)
      then \<lparr>buf = buf b @ replicate (pos b - length (buf b)) (CHR 0x00) @ s,
            pos = pos b + length s\<rparr>
      else \<lparr>buf = take (pos b) (buf b) @ s @ drop (pos b + length s) (buf b),
            pos = pos b + length s\<rparr>)"

definition sio_readline :: "sio \<Rightarrow> string \<times> sio" where
  "sio_readline b =
     (let rest = drop (pos b) (buf b);
          l = take_line rest
      in (l, b\<lparr>pos := (if nl \<in> set rest then pos b + length l else length (buf b))\<rparr>))"

text \<open>\<^verbatim>\<open>readline()\<close> of a stream; \<open>None\<close> is a call that never returns, \<open>err\<close> the
  exception of a failed transport.\<close>

definition reader_readline :: "exn \<Rightarrow> reader \<Rightarrow> ((exn + string) \<times> reader) option" where
  "reader_readline err r =
     (if nl \<in> set (pending r)
      then Some (Inr (take_line (pending r)),
                 r\<lparr>pending := drop (length (take_line (pending r))) (pending r)\<rparr>)
      else (case ending r of
              Eof \<Rightarrow> Some (Inr (pending r), r\<lparr>pending := []\<rparr>)
            | Blocks \<Rightarrow> None
            | Fails \<Rightarrow> Some (Inl err, r)))"

text \<open>
  Method calls on a value of the environment. A value that is no handle, and an object
  without the method, raise \<^verbatim>\<open>AttributeError\<close>; a pipe cannot seek and raises \<^verbatim>\<open>IOError\<close>.
\<close>

definition m_tell :: "obj list \<Rightarrow> val \<Rightarrow> exn + nat" where
  "m_tell h v =
     (case deref h v of
        Some (OStringIO b) \<Rightarrow> Inr (pos b)
      | Some (OPipe r) \<Rightarrow> Inl IOError
      | Some (OStdin s) \<Rightarrow> Inl IOError
      | _ \<Rightarrow> Inl AttributeError)"

fun m_seek :: "obj list \<Rightarrow> val \<Rightarrow> (sio \<Rightarrow> nat) \<Rightarrow> exn + obj list" where
  "m_seek h (VRef r) target =
     (if r < length h
      then (case h ! r of
              OStringIO b \<Rightarrow> Inr (h[r := OStringIO (b\<lparr>pos := target b\<rparr>)])
            | OPipe rd \<Rightarrow> Inl IOError
            | OStdin s \<Rightarrow> Inl IOError
            | _ \<Rightarrow> Inl AttributeError)
      else Inl AttributeError)"
| "m_seek h v target = Inl AttributeError"

fun m_write :: "obj list \<Rightarrow> val \<Rightarrow> string \<Rightarrow> exn + obj list" where
  "m_write h (VRef r) s =
     (if r < length h
      then (case h ! r of
              OStringIO b \<Rightarrow> Inr (h[r := OStringIO (sio_write s b)])
            | OStdin d \<Rightarrow> Inr (h[r := OStdin (d @ s)])
            | OPipe rd \<Rightarrow> Inl IOError
            | _ \<Rightarrow> Inl AttributeError)
      else Inl AttributeError)"
| "m_write h v s = Inl AttributeError"

fun m_readline :: "obj list \<Rightarrow> val \<Rightarrow> ((exn + string) \<times> obj list) option" where
  "m_readline h (VRef r) =
     (if r < length h
      then (case h ! r of
              OSockFile rd \<Rightarrow>
                (case reader_readline SocketError rd of
                   None \<Rightarrow> None
                 | Some (res, rd') \<Rightarrow> Some (res, h[r := OSockFile rd']))
            | OPipe rd \<Rightarrow>
                (case reader_readline IOError rd of
                   None \<Rightarrow> None
                 | Some (res, rd') \<Rightarrow> Some (res, h[r := OPipe rd']))
            | OStringIO b \<Rightarrow> Some (Inr (fst (sio_readline b)), h[r := OStringIO (snd (sio_readline b))])
            | OStdin d \<Rightarrow> Some (Inl IOError, h)
            | _ \<Rightarrow> Some (Inl AttributeError, h))
      else Some (Inl AttributeError, h))"
| "m_readline h v = Some (Inl AttributeError, h)"

text \<open>
  \<^verbatim>\<open>s.shutdown(1)\<close> and \<^verbatim>\<open>s.close()\<close>. \<^verbatim>\<open>shutdown\<close> raises \<^verbatim>\<open>socket.error\<close> on a socket
  that was closed (bad file descriptor) and on a socket whose connection the peer has
  reset (not connected); \<^verbatim>\<open>close\<close> always succeeds.
\<close>

fun m_shutdown :: "obj list \<Rightarrow> val \<Rightarrow> exn + obj list" where
  "m_shutdown h (VRef r) =
     (if r < length h
      then (case h ! r of
              OSocket sk \<Rightarrow>
                (if s_closed sk then Inl SocketError
                 else if \<not> s_connected sk then Inl SocketError
                 else Inr (h[r := OSocket (sk\<lparr>s_shut_wr := True\<rparr>)]))
            | _ \<Rightarrow> Inl AttributeError)
      else Inl AttributeError)"
| "m_shutdown h v = Inl AttributeError"

fun m_close :: "obj list \<Rightarrow> val \<Rightarrow> exn + obj list" where
  "m_close h (VRef r) =
     (if r < length h
      then (case h ! r of
              OSocket sk \<Rightarrow> Inr (h[r := OSocket (sk\<lparr>s_closed := True\<rparr>)])
            | _ \<Rightarrow> Inl AttributeError)
      else Inl AttributeError)"
| "m_close h v = Inl AttributeError"

subsection \<open>Receive\<close>

record receive =
  name :: string
  numlines :: int

text \<open>The loop \<^verbatim>\<open>for i in range(self.numlines): line = s.readline(); stdout.write(line)\<close>,
  for the number of rounds still to run.\<close>

fun recv_loop :: "nat \<Rightarrow> val \<Rightarrow> val \<Rightarrow> obj list \<Rightarrow> (outcome \<times> obj list) option" where
  "recv_loop 0 out s h = Some (Ok, h)"
| "recv_loop (Suc n) out s h =
     (case m_readline h s of
        None \<Rightarrow> None
      | Some (Inl e, h1) \<Rightarrow> Some (Raised e, h1)
      | Some (Inr line, h1) \<Rightarrow>
         (case m_write h1 out line of
            Inl e \<Rightarrow> Some (Raised e, h1)
          | Inr h2 \<Rightarrow> recv_loop n out s h2))"

definition Receive_run :: "receive \<Rightarrow> world \<Rightarrow> (outcome \<times> world) option" where
  "Receive_run t w =
     (if \<not> has_key (env w) ''SOCKET''
      then Some (Raised (TaskError [Lit ''SOCKET not defined, call Connect first'']), w)
      else case getitem (env w) ''STDOUT'' of
        Inl e \<Rightarrow> Some (Raised e, w)
      | Inr stdout \<Rightarrow>
     (case getitem (env w) ''SOCKET_FILE'' of
        Inl e \<Rightarrow> Some (Raised e, w)
      | Inr s \<Rightarrow>
     (case m_tell (heap w) stdout of
        Inl e \<Rightarrow> Some (Raised e, w)
      | Inr p \<Rightarrow>
     (case m_seek (heap w) stdout (\<lambda>b. length (buf b)) of
        Inl e \<Rightarrow> Some (Raised e, w)
      | Inr h1 \<Rightarrow>
     (case recv_loop (nat (numlines t)) stdout s h1 of
        None \<Rightarrow> None
      | Some (Raised e, h2) \<Rightarrow> Some (Raised e, w\<lparr>heap := h2\<rparr>)
      | Some (Ok, h2) \<Rightarrow>
     (case m_seek h2 stdout (\<lambda>b. p) of
        Inl e \<Rightarrow> Some (Raised e, w\<lparr>heap := h2\<rparr>)
      | Inr h3 \<Rightarrow> Some (Ok, w\<lparr>heap := h3\<rparr>)))))))"

subsection \<open>Disconnect\<close>

definition Disconnect_run :: "world \<Rightarrow> outcome \<times> world" where
  "Disconnect_run w =
     (if \<not> has_key (env w) ''SOCKET'' then (Ok, w)
      else case getitem (env w) ''SOCKET'' of
        Inl e \<Rightarrow> (Raised e, w)
      | Inr s \<Rightarrow>
     (case m_shutdown (heap w) s of
        Inl e \<Rightarrow> (Raised e, w)
      | Inr h1 \<Rightarrow>
     (case m_close h1 s of
        Inl e \<Rightarrow> (Raised e, w\<lparr>heap := h1\<rparr>)
      | Inr h2 \<Rightarrow> (Ok, delitem ''SOCKET'' (w\<lparr>heap := h2\<rparr>)))))"

section \<open>Structured extraction: ParseXML, ParseJSON, ParseCSV\<close>

text \<open>
  A binding is the triple \<^verbatim>\<open>(xpath, key, conversion)\<close> that \<^verbatim>\<open>get\<close> appends to
  \<^verbatim>\<open>self.fields\<close>. A conversion is any callable; it returns a value or raises.
\<close>

type_synonym conv = "val \<Rightarrow> exn + val"

type_synonym binding = "string \<times> string \<times> conv"

record parser =
  p_file :: string
  p_fields :: "binding list"

definition get :: "string \<Rightarrow> string \<Rightarrow> conv \<Rightarrow> parser \<Rightarrow> parser" where
  "get q key conversion t = t\<lparr>p_fields := p_fields t @ [(q, key, conversion)]\<rparr>"

text \<open>Python 2's \<^verbatim>\<open>map(f, xs)\<close>: from left to right, and the first exception ends it.\<close>

fun map_exn :: "('a \<Rightarrow> exn + 'b) \<Rightarrow> 'a list \<Rightarrow> exn + 'b list" where
  "map_exn f [] = Inr []"
| "map_exn f (x # xs) =
     (case f x of
        Inl e \<Rightarrow> Inl e
      | Inr y \<Rightarrow> (case map_exn f xs of Inl e \<Rightarrow> Inl e | Inr ys \<Rightarrow> Inr (y # ys)))"

text \<open>\<^verbatim>\<open>value if isinstance(value, str) else value.text\<close>: only an element has \<^verbatim>\<open>.text\<close>.\<close>

fun get_text :: "val \<Rightarrow> exn + val" where
  "get_text (VElem t) = Inr t"
| "get_text v = Inl AttributeError"

definition str_or_text :: "val \<Rightarrow> exn + val" where
  "str_or_text v = (if is_str v then Inr v else get_text v)"

subsection \<open>ParseXML\<close>

text \<open>
  \<^verbatim>\<open>etree.parse\<close> and \<^verbatim>\<open>tree.xpath\<close> are parameters: \<open>xpath tree q\<close> is the list of the
  matches of the query in the tree, each a string or an element.
\<close>

fun xml_fields :: "('t \<Rightarrow> string \<Rightarrow> exn + val list) \<Rightarrow> 't \<Rightarrow> binding list \<Rightarrow> world
    \<Rightarrow> outcome \<times> world" where
  "xml_fields xpath tree [] w = (Ok, w)"
| "xml_fields xpath tree ((q, key, conversion) # fs) w =
     (case xpath tree q of
        Inl e \<Rightarrow> (Raised e, w)
      | Inr values \<Rightarrow>
         (if length values = 1
          then (case str_or_text (values ! 0) of
                  Inl e \<Rightarrow> (Raised e, w)
                | Inr t \<Rightarrow>
                   (case conversion t of
                      Inl e \<Rightarrow> (Raised e, w)
                    | Inr c \<Rightarrow> xml_fields xpath tree fs (setitem key c w)))
          else (case map_exn str_or_text values of
                  Inl e \<Rightarrow> (Raised e, w)
                | Inr ts \<Rightarrow>
                   (case map_exn conversion ts of
                      Inl e \<Rightarrow> (Raised e, w)
                    | Inr cs \<Rightarrow> xml_fields xpath tree fs (setitem key (VList cs) w)))))"

definition ParseXML_run :: "(string \<Rightarrow> exn + 't) \<Rightarrow> ('t \<Rightarrow> string \<Rightarrow> exn + val list)
    \<Rightarrow> parser \<Rightarrow> world \<Rightarrow> outcome \<times> world" where
  "ParseXML_run parse xpath t w =
     (case parse (p_file t) of
        Inl e \<Rightarrow> (Raised e, w)
      | Inr tree \<Rightarrow> xml_fields xpath tree (p_fields t) w)"

subsection \<open>ParseJSON\<close>

text \<open>
  \<open>load\<close> is \<^verbatim>\<open>json.load(open(self.file))\<close>; \<open>jfind q content\<close> is
  \<^verbatim>\<open>parse(q).find(content)\<close>, as the list of the \<^verbatim>\<open>.value\<close> of each match.
\<close>

fun json_fields :: "(string \<Rightarrow> 'j \<Rightarrow> exn + val list) \<Rightarrow> 'j \<Rightarrow> binding list \<Rightarrow> world
    \<Rightarrow> outcome \<times> world" where
  "json_fields jfind content [] w = (Ok, w)"
| "json_fields jfind content ((q, key, conversion) # fs) w =
     (case jfind q content of
        Inl e \<Rightarrow> (Raised e, w)
      | Inr values \<Rightarrow>
         (if length values = 1
          then (case values ! 0 of
                  VList xs \<Rightarrow>
                   (case map_exn conversion xs of
                      Inl e \<Rightarrow> (Raised e, w)
                    | Inr cs \<Rightarrow> json_fields jfind content fs (setitem key (VList cs) w))
                | v \<Rightarrow>
                   (case conversion v of
                      Inl e \<Rightarrow> (Raised e, w)
                    | Inr c \<Rightarrow> json_fields jfind content fs (setitem key c w)))
          else (case map_exn conversion values of
                  Inl e \<Rightarrow> (Raised e, w)
                | Inr cs \<Rightarrow> json_fields jfind content fs (setitem key (VList cs) w))))"

definition ParseJSON_run :: "(string \<Rightarrow> exn + 'j) \<Rightarrow> (string \<Rightarrow> 'j \<Rightarrow> exn + val list)
    \<Rightarrow> parser \<Rightarrow> world \<Rightarrow> outcome \<times> world" where
  "ParseJSON_run load jfind t w =
     (case load (p_file t) of
        Inl e \<Rightarrow> (Raised e, w)
      | Inr content \<Rightarrow> json_fields jfind content (p_fields t) w)"

subsection \<open>ParseCSV\<close>

text \<open>\<^verbatim>\<open>str.strip()\<close> and \<^verbatim>\<open>str.endswith\<close>.\<close>

definition is_space :: "char \<Rightarrow> bool" where
  "is_space c = (c \<in> set [CHR '' '', CHR 0x09, CHR 0x0A, CHR 0x0B, CHR 0x0C, CHR 0x0D])"

definition strip :: "string \<Rightarrow> string" where
  "strip s = rev (dropWhile is_space (rev (dropWhile is_space s)))"

definition endswith :: "string \<Rightarrow> string \<Rightarrow> bool" where
  "endswith s suffix =
     (length suffix \<le> length s \<and> drop (length s - length suffix) s = suffix)"

text \<open>
  A row of \<^verbatim>\<open>csv.DictReader\<close> maps the column names to the cells; a row with more cells
  than columns has the key \<^verbatim>\<open>None\<close>, and \<^verbatim>\<open>key.strip()\<close> raises there. The loop over
  \<^verbatim>\<open>row.iteritems()\<close> fills \<^verbatim>\<open>cleanup_row\<close>.
\<close>

fun cleanup :: "(val \<times> val) list \<Rightarrow> (string \<times> val) list \<Rightarrow> exn + (string \<times> val) list" where
  "cleanup [] cleanup_row = Inr cleanup_row"
| "cleanup ((VStr key, v) # kvs) cleanup_row =
     cleanup kvs (AList.update (strip key) (case v of VStr s \<Rightarrow> VStr (strip s) | _ \<Rightarrow> v) cleanup_row)"
| "cleanup ((k, v) # kvs) cleanup_row = Inl AttributeError"

text \<open>\<^verbatim>\<open>if not expr.endswith(" else None"): expr += " else None"\<close>.\<close>

definition with_else :: "string \<Rightarrow> string" where
  "with_else expr = (if \<not> endswith expr '' else None'' then expr @ '' else None'' else expr)"

text \<open>
  The local variables of \<^verbatim>\<open>ParseCSV.run\<close> that its loops change: the dict \<^verbatim>\<open>results\<close> and
  the loop variable \<^verbatim>\<open>conversion\<close>, which is unbound (\<open>None\<close>) until the loop over the
  bindings has run once and keeps its last value after the loops. \<open>ev\<close> is
  \<^verbatim>\<open>eval(expr, {"row": cleanup_row})\<close>.
\<close>

type_synonym locals = "(string \<times> val list) list \<times> conv option"

fun csv_fields :: "(string \<Rightarrow> (string \<times> val) list \<Rightarrow> exn + val) \<Rightarrow> (string \<times> val) list
    \<Rightarrow> binding list \<Rightarrow> locals \<Rightarrow> exn + locals" where
  "csv_fields ev row [] st = Inr st"
| "csv_fields ev row ((expr, key, conversion) # fs) (results, cv) =
     (case ev (with_else expr) row of
        Inl e \<Rightarrow> Inl e
      | Inr result \<Rightarrow>
          csv_fields ev row fs
            (if result \<noteq> VNone
             then (case map_of results key of
                     None \<Rightarrow> AList.update key [result] results
                   | Some vs \<Rightarrow> AList.update key (vs @ [result]) results)
             else results,
             Some conversion))"

fun csv_rows :: "(string \<Rightarrow> (string \<times> val) list \<Rightarrow> exn + val) \<Rightarrow> (val \<times> val) list list
    \<Rightarrow> binding list \<Rightarrow> locals \<Rightarrow> exn + locals" where
  "csv_rows ev [] fs st = Inr st"
| "csv_rows ev (row # rows) fs st =
     (case cleanup row [] of
        Inl e \<Rightarrow> Inl e
      | Inr cleanup_row \<Rightarrow>
         (case csv_fields ev cleanup_row fs st of
            Inl e \<Rightarrow> Inl e
          | Inr st' \<Rightarrow> csv_rows ev rows fs st'))"

text \<open>The loop over \<^verbatim>\<open>results.iteritems()\<close>, with the value of the variable
  \<^verbatim>\<open>conversion\<close> at that point.\<close>

fun csv_collapse :: "conv option \<Rightarrow> (string \<times> val list) list \<Rightarrow> world \<Rightarrow> outcome \<times> world" where
  "csv_collapse cv [] w = (Ok, w)"
| "csv_collapse None ((key, values) # rs) w = (Raised NameError, w)"
| "csv_collapse (Some conversion) ((key, values) # rs) w =
     (if length values = 1
      then (case str_or_text (values ! 0) of
              Inl e \<Rightarrow> (Raised e, w)
            | Inr t \<Rightarrow>
               (case conversion t of
                  Inl e \<Rightarrow> (Raised e, w)
                | Inr c \<Rightarrow> csv_collapse (Some conversion) rs (setitem key c w)))
      else (case map_exn str_or_text values of
              Inl e \<Rightarrow> (Raised e, w)
            | Inr ts \<Rightarrow>
               (case map_exn conversion ts of
                  Inl e \<Rightarrow> (Raised e, w)
                | Inr cs \<Rightarrow> csv_collapse (Some conversion) rs (setitem key (VList cs) w))))"

text \<open>\<open>reader\<close> is \<^verbatim>\<open>csv.DictReader(open(self.file), **self.kwargs)\<close>: the rows of the
  file, or the exception of a file that cannot be read.\<close>

definition ParseCSV_run :: "(string \<Rightarrow> exn + (val \<times> val) list list)
    \<Rightarrow> (string \<Rightarrow> (string \<times> val) list \<Rightarrow> exn + val) \<Rightarrow> parser \<Rightarrow> world \<Rightarrow> outcome \<times> world" where
  "ParseCSV_run reader ev t w =
     (case reader (p_file t) of
        Inl e \<Rightarrow> (Raised e, w)
      | Inr rows \<Rightarrow>
         (case csv_rows ev rows (p_fields t) ([], None) of
            Inl e \<Rightarrow> (Raised e, w)
          | Inr (results, cv) \<Rightarrow> csv_collapse cv results w))"

section \<open>Example environments\<close>

text \<open>An environment seeded with one parameter, and one in which \<^verbatim>\<open>Execute\<close> has run
  without capturing the child's streams; the argument is how the child ends.\<close>

definition seeded :: world where
  "seeded = \<lparr>env = [(''x'', VStr ''42'')], heap = []\<rparr>"

definition spawned :: "int option \<Rightarrow> world" where
  "spawned c = \<lparr>env = [(''PROCESS'', VRef 1), (''STDIN'', VRef 0)],
     heap = [OStdin [],
             OProcess \<lparr>p_stdin = VRef 0, p_stdout = VNone, p_stderr = VNone, p_exit = c\<rparr>]\<rparr>"

text \<open>
  Library calls for the examples: nothing to substitute, one word per command, a child
  that prints \<^verbatim>\<open>42\<close> and exits with \<open>0\<close>, a watchdog that never fires, and a peer that
  sends two lines and the beginning of a third before it closes the connection.
\<close>

definition demo_sys :: sys where
  "demo_sys = \<lparr>substitute = (\<lambda>s e. Inr s), shlex_split = (\<lambda>s. Inr [s]),
     popen = (\<lambda>argv. Inr \<lparr>c_stdout = \<lparr>pending = ''42'' @ [nl], ending = Eof\<rparr>,
                            c_stderr = \<lparr>pending = [], ending = Eof\<rparr>, c_exit = Some 0\<rparr>),
     process_monitor = (\<lambda>tmo c. c),
     sock_connect = (\<lambda>srv prt. Inr \<lparr>pending = ''a'' @ [nl] @ ''b'' @ [nl] @ ''c'', ending = Eof\<rparr>)\<rparr>"

definition localhost :: connect_task where
  "localhost = \<lparr>server = ''localhost'', port = PStr ''8080''\<rparr>"

text \<open>The environment \<open>seeded\<close> after \<^verbatim>\<open>Connect("localhost:8080")\<close>.\<close>

definition connected :: world where
  "connected = \<lparr>env = [(''x'', VStr ''42''), (''SOCKET'', VRef 0), (''SOCKET_FILE'', VRef 1),
       (''STDOUT'', VRef 2)],
     heap = [OSocket \<lparr>s_closed = False, s_shut_wr = False, s_connected = True\<rparr>,
             OSockFile \<lparr>pending = ''a'' @ [nl] @ ''b'' @ [nl] @ ''c'', ending = Eof\<rparr>,
             OStringIO \<lparr>buf = [], pos = 0\<rparr>]\<rparr>"

text \<open>The environment \<open>connected\<close> after the peer has reset the connection.\<close>

definition reset_by_peer :: world where
  "reset_by_peer = \<lparr>env = [(''x'', VStr ''42''), (''SOCKET'', VRef 0), (''SOCKET_FILE'', VRef 1),
       (''STDOUT'', VRef 2)],
     heap = [OSocket \<lparr>s_closed = False, s_shut_wr = False, s_connected = False\<rparr>,
             OSockFile \<lparr>pending = [], ending = Fails\<rparr>,
             OStringIO \<lparr>buf = [], pos = 0\<rparr>]\<rparr>"

text \<open>\<^verbatim>\<open>Execute("echo", ignore_stderr=True)\<close>, and the environment \<open>seeded\<close> after it.\<close>

definition echo :: execute where
  "echo = \<lparr>command = ''echo'', timeout = VNone, ignore_stdout = False, ignore_stderr = True\<rparr>"

definition executed :: world where
  "executed = \<lparr>env = [(''x'', VStr ''42''), (''PROCESS'', VRef 2), (''STDIN'', VRef 0),
       (''STDOUT'', VRef 1)],
     heap = [OStdin [], OPipe \<lparr>pending = ''42'' @ [nl], ending = Eof\<rparr>,
             OProcess \<lparr>p_stdin = VRef 0, p_stdout = VRef 1, p_stderr = VNone, p_exit = Some 0\<rparr>]\<rparr>"

text \<open>A newline-terminated line: it ends with a newline and has no other.\<close>

definition is_line :: "string \<Rightarrow> bool" where
  "is_line l = (l \<noteq> [] \<and> last l = nl \<and> nl \<notin> set (butlast l))"

text \<open>An open channel whose peer has closed the connection without sending anything, and
  two \<^verbatim>\<open>Receive\<close> tasks.\<close>

definition hung_up :: world where
  "hung_up = \<lparr>env = [(''SOCKET'', VRef 0), (''SOCKET_FILE'', VRef 1), (''STDOUT'', VRef 2)],
     heap = [OSocket \<lparr>s_closed = False, s_shut_wr = False, s_connected = True\<rparr>,
             OSockFile \<lparr>pending = [], ending = Eof\<rparr>,
             OStringIO \<lparr>buf = [], pos = 0\<rparr>]\<rparr>"

definition receive_one :: receive where
  "receive_one = \<lparr>name = ''STDOUT'', numlines = 1\<rparr>"

definition receive_two :: receive where
  "receive_two = \<lparr>name = ''reply'', numlines = 2\<rparr>"

text \<open>
  The collapse rule in the words of the specification: exactly one matched value gives the
  converted value, none or several give the list of the converted values.
\<close>

definition collapse :: "conv \<Rightarrow> val list \<Rightarrow> exn + val" where
  "collapse conversion vs =
     (case vs of
        [v] \<Rightarrow> conversion v
      | _ \<Rightarrow> (case map_exn conversion vs of Inl e \<Rightarrow> Inl e | Inr cs \<Rightarrow> Inr (VList cs)))"

text \<open>
  The values that \<^verbatim>\<open>ParseCSV\<close> gathers for the destination field \<open>k\<close>: in each row, the
  results other than \<^verbatim>\<open>None\<close> of the queries bound to \<open>k\<close>, in the order of the bindings;
  and these row after row. For a field that one binding names, they are the results of
  its query on the rows that match.
\<close>

fun hits :: "(string \<Rightarrow> (string \<times> val) list \<Rightarrow> exn + val) \<Rightarrow> (string \<times> val) list
    \<Rightarrow> binding list \<Rightarrow> string \<Rightarrow> val list" where
  "hits ev row [] k = []"
| "hits ev row ((expr, key, conversion) # fs) k =
     (case ev (with_else expr) row of
        Inr result \<Rightarrow> (if result \<noteq> VNone \<and> key = k then [result] else [])
      | Inl e \<Rightarrow> []) @ hits ev row fs k"

fun csv_hits :: "(string \<Rightarrow> (string \<times> val) list \<Rightarrow> exn + val) \<Rightarrow> (val \<times> val) list list
    \<Rightarrow> binding list \<Rightarrow> string \<Rightarrow> val list" where
  "csv_hits ev [] fs k = []"
| "csv_hits ev (row # rows) fs k =
     (case cleanup row [] of Inr cleanup_row \<Rightarrow> hits ev cleanup_row fs k | Inl e \<Rightarrow> [])
     @ csv_hits ev rows fs k"

text \<open>The bindings with every conversion replaced by \<open>c\<close>, and the values of a field
  of \<^verbatim>\<open>results\<close> after more values were appended.\<close>

definition recode :: "conv \<Rightarrow> binding list \<Rightarrow> binding list" where
  "recode c fs = map (\<lambda>(expr, key, conversion). (expr, key, c)) fs"

text \<open>
  Conversions for the examples: Python's \<^verbatim>\<open>len\<close> and the identity. A table of three
  rows whose second column has blanks around its name and one of its cells, with an
  evaluator that knows three queries (\<^verbatim>\<open>A\<close> is \<^verbatim>\<open>row["a"]\<close>, \<^verbatim>\<open>YES\<close> is
  \<^verbatim>\<open>row["b"] == "yes"\<close>, and so on); an XML tree and a JSON document with their queries.
\<close>

definition py_len :: conv where
  "py_len v = (case v of VStr s \<Rightarrow> Inr (VInt (int (length s)))
     | VList xs \<Rightarrow> Inr (VInt (int (length xs))) | _ \<Rightarrow> Inl TypeError)"

definition same :: conv where
  "same v = Inr v"

definition table :: "(val \<times> val) list list" where
  "table = [ [(VStr ''a'', VStr ''1''), (VStr '' b'', VStr ''yes '')],
            [(VStr ''a'', VStr ''2''), (VStr '' b'', VStr ''no'')],
            [(VStr ''a'', VStr ''3''), (VStr '' b'', VStr ''yes'')]]"

definition demo_reader :: "string \<Rightarrow> exn + (val \<times> val) list list" where
  "demo_reader f = (if f = ''out.csv'' then Inr table else Inl IOError)"

definition demo_eval :: "string \<Rightarrow> (string \<times> val) list \<Rightarrow> exn + val" where
  "demo_eval expr row =
     (if expr = ''A if YES else None''
      then (if map_of row ''b'' = Some (VStr ''yes'') then getitem row ''a'' else Inr VNone)
      else if expr = ''A if NO else None''
      then (if map_of row ''b'' = Some (VStr ''no'') then getitem row ''a'' else Inr VNone)
      else if expr = ''A if MAYBE else None''
      then (if map_of row ''b'' = Some (VStr ''maybe'') then getitem row ''a'' else Inr VNone)
      else Inl (LibError ''SyntaxError''))"

definition two_queries :: parser where
  "two_queries = get ''A if NO'' ''rest'' py_len
     (get ''A if YES'' ''picked'' same \<lparr>p_file = ''out.csv'', p_fields = []\<rparr>)"

definition gathered :: "val list option \<Rightarrow> val list \<Rightarrow> val list option" where
  "gathered m xs = (if xs = [] then m else Some ((case m of None \<Rightarrow> [] | Some vs \<Rightarrow> vs) @ xs))"

definition demo_parse :: "string \<Rightarrow> exn + string" where
  "demo_parse f = (if f = ''out.xml'' then Inr ''<r><x>3</x><y>ab</y><y>c</y></r>'' else Inl IOError)"

definition demo_xpath :: "string \<Rightarrow> string \<Rightarrow> exn + val list" where
  "demo_xpath tree q =
     (if q = ''//x'' then Inr [VElem (VStr ''3'')]
      else if q = ''//y/text()'' then Inr [VStr ''ab'', VStr ''c'']
      else Inr [])"

definition xml_queries :: parser where
  "xml_queries = get ''//z'' ''zs'' same (get ''//y/text()'' ''ys'' py_len
     (get ''//x'' ''n'' py_len \<lparr>p_file = ''out.xml'', p_fields = []\<rparr>))"

definition demo_load :: "string \<Rightarrow> exn + val" where
  "demo_load f = (if f = ''out.json'' then Inr (VList [VStr ''ab'', VStr ''c'']) else Inl IOError)"

definition demo_jfind :: "string \<Rightarrow> val \<Rightarrow> exn + val list" where
  "demo_jfind q content =
     (if q = ''$'' then Inr [content]
      else if q = ''$[*]'' then (case content of VList xs \<Rightarrow> Inr xs | _ \<Rightarrow> Inr [])
      else if q = ''$[0]'' then (case content of VList (x # xs) \<Rightarrow> Inr [x] | _ \<Rightarrow> Inr [])
      else Inr [])"

definition json_whole :: parser where
  "json_whole = get ''$'' ''n'' py_len \<lparr>p_file = ''out.json'', p_fields = []\<rparr>"

definition json_queries :: parser where
  "json_queries = get ''$.none'' ''none'' py_len (get ''$[*]'' ''all'' py_len
     (get ''$[0]'' ''first'' py_len \<lparr>p_file = ''out.json'', p_fields = []\<rparr>))"

definition csv_no_match :: parser where
  "csv_no_match = get ''A if MAYBE'' ''maybe'' same \<lparr>p_file = ''out.csv'', p_fields = []\<rparr>"

definition csv_queries :: parser where
  "csv_queries = get ''A if NO'' ''rest'' py_len
     (get ''A if YES'' ''picked'' py_len \<lparr>p_file = ''out.csv'', p_fields = []\<rparr>)"

section \<open>The environment\<close>

lemma getitem_Some: "map_of e k = Some v \<Longrightarrow> getitem e k = Inr v"
  by (simp add: getitem_def)

lemma has_key_Some: "map_of e k = Some v \<Longrightarrow> has_key e k"
  by (simp add: has_key_def)

lemma has_key_None: "map_of e k = None \<Longrightarrow> \<not> has_key e k"
  by (simp add: has_key_def)

section \<open>The exit-code check\<close>

text \<open>
  C4: in an environment without the key \<^verbatim>\<open>PROCESS\<close>, \<^verbatim>\<open>CheckExitCode.run\<close> raises the
  \<^verbatim>\<open>TaskError\<close> of the missing prerequisite. It returns (the result is not \<open>None\<close>)
  whatever the heap holds, so it waits on nothing, and the environment and the heap are
  those before the call.
\<close>

theorem check_exit_code_without_process:
  assumes "map_of (env w) ''PROCESS'' = None"
  shows "CheckExitCode_run ok w =
    Some (Raised (TaskError [Lit ''PROCESS not set, call Execute before CheckExitCode'']), w)"
  using assms by (simp add: CheckExitCode_run_def has_key_def)

theorem check_exit_code_without_process_witness:
  "map_of (env seeded) ''PROCESS'' = None \<and>
   CheckExitCode_run CheckExitCode_default seeded =
    Some (Raised (TaskError [Lit ''PROCESS not set, call Execute before CheckExitCode'']), seeded)"
  using check_exit_code_without_process [of seeded CheckExitCode_default]
  by (simp add: seeded_def)

text \<open>
  C3: in an environment whose key \<^verbatim>\<open>PROCESS\<close> holds a process handle,
  \<^verbatim>\<open>CheckExitCode.run\<close> returns exactly when the process terminates; it then stores the
  exit code under \<^verbatim>\<open>EXIT_CODE\<close>, and it raises the \<^verbatim>\<open>TaskError\<close> of a failed execution
  if and only if the code is not in the accepted list. The default list accepts \<open>0\<close>
  only, and an accepted value that is not a list stands for the list of that one value.
\<close>

theorem check_exit_code_with_process:
  assumes "map_of (env w) ''PROCESS'' = Some (VRef p)"
    and "p < length (heap w)"
    and "heap w ! p = OProcess pr"
  shows "CheckExitCode_run ok w =
      (case p_exit pr of
         None \<Rightarrow> None
       | Some c \<Rightarrow>
           Some (if int_in c ok then Ok
                 else Raised (TaskError [Lit ''Execute failed, expected exit code '',
                        StrOf (VList ok), Lit '', received '', StrOf (VInt c)]),
                 w\<lparr>env := AList.update ''EXIT_CODE'' (VInt c) (env w)\<rparr>))
    \<and> (int_in c CheckExitCode_default \<longleftrightarrow> c = 0)
    \<and> (\<not> is_list v \<longrightarrow> CheckExitCode_init v = [v])
    \<and> CheckExitCode_init (VList xs) = xs"
proof -
  have run: "CheckExitCode_run ok w =
      (case p_exit pr of
         None \<Rightarrow> None
       | Some c \<Rightarrow>
           Some (if int_in c ok then Ok
                 else Raised (TaskError [Lit ''Execute failed, expected exit code '',
                        StrOf (VList ok), Lit '', received '', StrOf (VInt c)]),
                 w\<lparr>env := AList.update ''EXIT_CODE'' (VInt c) (env w)\<rparr>))"
    using assms
    by (simp add: CheckExitCode_run_def has_key_def getitem_def m_wait_def setitem_def
        split: option.splits)
  have dflt: "int_in c CheckExitCode_default \<longleftrightarrow> c = 0"
    by (auto simp: CheckExitCode_default_def CheckExitCode_init_def int_in_def)
  have single: "\<not> is_list v \<longrightarrow> CheckExitCode_init v = [v]"
    by (cases v) (simp_all add: CheckExitCode_init_def)
  have lst: "CheckExitCode_init (VList xs) = xs"
    by (simp add: CheckExitCode_init_def)
  from run dflt single lst show ?thesis by blast
qed

theorem check_exit_code_with_process_witness:
  "CheckExitCode_run CheckExitCode_default (spawned (Some 0)) =
     Some (Ok, (spawned (Some 0))\<lparr>env :=
       AList.update ''EXIT_CODE'' (VInt 0) (env (spawned (Some 0)))\<rparr>)
   \<and> CheckExitCode_run CheckExitCode_default (spawned (Some 3)) =
     Some (Raised (TaskError [Lit ''Execute failed, expected exit code '',
                        StrOf (VList [VInt 0]), Lit '', received '', StrOf (VInt 3)]),
           (spawned (Some 3))\<lparr>env :=
       AList.update ''EXIT_CODE'' (VInt 3) (env (spawned (Some 3)))\<rparr>)
   \<and> CheckExitCode_run CheckExitCode_default (spawned None) = None
   \<and> CheckExitCode_init (VInt 7) = [VInt 7]"
  using check_exit_code_with_process [of "spawned (Some 0)" 1 _ CheckExitCode_default 0 "VInt 7"]
    check_exit_code_with_process [of "spawned (Some 3)" 1 _ CheckExitCode_default 3 "VInt 7"]
    check_exit_code_with_process [of "spawned None" 1 _ CheckExitCode_default 0 "VInt 7"]
  by (simp add: spawned_def CheckExitCode_default_def CheckExitCode_init_def)

section \<open>The channel: connecting and disconnecting\<close>

lemma connect_example: "Connect_init (Some ''localhost:8080'') None PNone = Inr localhost"
  by (simp add: Connect_init_def localhost_def)

text \<open>
  C5: in an environment that has the key \<^verbatim>\<open>SOCKET\<close>, \<^verbatim>\<open>Connect.run\<close> raises the
  \<^verbatim>\<open>TaskError\<close> of a connection that is already open, whatever the task and the network
  are; the environment and the heap are those before the call, so the socket, its reader
  and the capture buffer are as they were and every later task finds the first channel
  as it left it.
\<close>

theorem connect_twice:
  assumes "map_of (env w) ''SOCKET'' = Some s"
  shows "Connect_run sy t w =
    (Raised (TaskError [Lit ''SOCKET already defined, close prior connection first'']), w)"
  using assms by (simp add: Connect_run_def has_key_def)

theorem connect_twice_witness:
  "Connect_run demo_sys localhost seeded = (Ok, connected) \<and>
   map_of (env connected) ''SOCKET'' = Some (VRef 0) \<and>
   Connect_run demo_sys localhost connected =
    (Raised (TaskError [Lit ''SOCKET already defined, close prior connection first'']), connected)"
  using connect_twice [of connected "VRef 0" demo_sys localhost]
  by (simp add: Connect_run_def demo_sys_def localhost_def seeded_def connected_def has_key_def setitem_def)

text \<open>
  C6, as the code has it: \<^verbatim>\<open>Disconnect.run\<close> without the key \<^verbatim>\<open>SOCKET\<close> returns and
  changes nothing; with the handle of a socket under \<^verbatim>\<open>SOCKET\<close> that is not closed and
  whose connection is still up, it shuts the socket down, closes it and deletes the key;
  and after a call that returned normally, a second call returns and changes nothing.
\<close>

theorem disconnect_idempotent:
  "(map_of (env w) ''SOCKET'' = None \<longrightarrow> Disconnect_run w = (Ok, w))
 \<and> (map_of (env w) ''SOCKET'' = Some (VRef s) \<and> s < length (heap w) \<and>
      heap w ! s = OSocket sk \<and> \<not> s_closed sk \<and> s_connected sk \<longrightarrow>
      Disconnect_run w =
        (Ok, w\<lparr>env := AList.delete ''SOCKET'' (env w),
               heap := (heap w)[s := OSocket (sk\<lparr>s_shut_wr := True, s_closed := True\<rparr>)]\<rparr>)
      \<and> map_of (env (snd (Disconnect_run w))) ''SOCKET'' = None)
 \<and> (fst (Disconnect_run w) = Ok \<longrightarrow>
      Disconnect_run (snd (Disconnect_run w)) = (Ok, snd (Disconnect_run w)))"
proof (intro conjI impI)
  assume "map_of (env w) ''SOCKET'' = None"
  then show "Disconnect_run w = (Ok, w)"
    by (simp add: Disconnect_run_def has_key_def)
next
  assume a: "map_of (env w) ''SOCKET'' = Some (VRef s) \<and> s < length (heap w) \<and>
      heap w ! s = OSocket sk \<and> \<not> s_closed sk \<and> s_connected sk"
  then show run: "Disconnect_run w =
        (Ok, w\<lparr>env := AList.delete ''SOCKET'' (env w),
               heap := (heap w)[s := OSocket (sk\<lparr>s_shut_wr := True, s_closed := True\<rparr>)]\<rparr>)"
    by (simp add: Disconnect_run_def has_key_def getitem_def delitem_def)
  show "map_of (env (snd (Disconnect_run w))) ''SOCKET'' = None"
    by (simp add: run AList.delete_conv')
next
  assume ok: "fst (Disconnect_run w) = Ok"
  have "map_of (env (snd (Disconnect_run w))) ''SOCKET'' = None"
    using ok
    by (auto simp: Disconnect_run_def has_key_def getitem_def delitem_def AList.delete_conv'
        split: if_splits sum.splits option.splits)
  then show "Disconnect_run (snd (Disconnect_run w)) = (Ok, snd (Disconnect_run w))"
    by (simp add: Disconnect_run_def has_key_def)
qed

theorem disconnect_idempotent_witness:
  "Disconnect_run seeded = (Ok, seeded) \<and>
   Disconnect_run connected =
     (Ok, \<lparr>env = [(''x'', VStr ''42''), (''SOCKET_FILE'', VRef 1), (''STDOUT'', VRef 2)],
           heap = [OSocket \<lparr>s_closed = True, s_shut_wr = True, s_connected = True\<rparr>,
             OSockFile \<lparr>pending = ''a'' @ [nl] @ ''b'' @ [nl] @ ''c'', ending = Eof\<rparr>,
             OStringIO \<lparr>buf = [], pos = 0\<rparr>]\<rparr>) \<and>
   Disconnect_run (snd (Disconnect_run connected)) = (Ok, snd (Disconnect_run connected)) \<and>
   Disconnect_run (snd (Disconnect_run seeded)) = (Ok, snd (Disconnect_run seeded))"
proof -
  let ?sk = "\<lparr>s_closed = False, s_shut_wr = False, s_connected = True\<rparr>"
  note closed = disconnect_idempotent [of seeded 0 ?sk]
  note opened = disconnect_idempotent [of connected 0 ?sk]
  have c1: "map_of (env seeded) ''SOCKET'' = None"
    by (simp add: seeded_def)
  have c2: "map_of (env connected) ''SOCKET'' = Some (VRef 0) \<and> 0 < length (heap connected) \<and>
      heap connected ! 0 = OSocket ?sk \<and> \<not> s_closed ?sk \<and> s_connected ?sk"
    by (simp add: connected_def)
  from closed c1 have r1: "Disconnect_run seeded = (Ok, seeded)"
    by blast
  from opened c2 have r2: "Disconnect_run connected =
      (Ok, connected\<lparr>env := AList.delete ''SOCKET'' (env connected),
        heap := (heap connected)[0 := OSocket (?sk\<lparr>s_shut_wr := True, s_closed := True\<rparr>)]\<rparr>)"
    by blast
  from closed r1 have r3:
    "Disconnect_run (snd (Disconnect_run seeded)) = (Ok, snd (Disconnect_run seeded))"
    by simp
  from opened r2 have r4:
    "Disconnect_run (snd (Disconnect_run connected)) = (Ok, snd (Disconnect_run connected))"
    by simp
  from r2 have r2': "Disconnect_run connected =
     (Ok, \<lparr>env = [(''x'', VStr ''42''), (''SOCKET_FILE'', VRef 1), (''STDOUT'', VRef 2)],
           heap = [OSocket \<lparr>s_closed = True, s_shut_wr = True, s_connected = True\<rparr>,
             OSockFile \<lparr>pending = ''a'' @ [nl] @ ''b'' @ [nl] @ ''c'', ending = Eof\<rparr>,
             OStringIO \<lparr>buf = [], pos = 0\<rparr>]\<rparr>)"
    by (simp add: connected_def)
  from r1 r2' r3 r4 show ?thesis by blast
qed

text \<open>
  Without the condition on the connection the statement fails: when the peer has reset
  the connection, \<^verbatim>\<open>shutdown\<close> raises, the socket is not closed and the key \<^verbatim>\<open>SOCKET\<close>
  stays, so that a second call raises again.
\<close>

theorem disconnect_idempotent_counterexample:
  "map_of (env reset_by_peer) ''SOCKET'' = Some (VRef 0)
   \<and> heap reset_by_peer ! 0 = OSocket \<lparr>s_closed = False, s_shut_wr = False, s_connected = False\<rparr>
   \<and> Disconnect_run reset_by_peer = (Raised SocketError, reset_by_peer)
   \<and> Disconnect_run (snd (Disconnect_run reset_by_peer)) = (Raised SocketError, reset_by_peer)"
  by (simp add: Disconnect_run_def reset_by_peer_def has_key_def getitem_def)

section \<open>Return\<close>

lemma Return_del_filter:
  "distinct ks \<Longrightarrow> set ks \<subseteq> fst ` set (env w) \<Longrightarrow>
   Return_del ks w = (Ok, w\<lparr>env := filter (\<lambda>kv. fst kv \<notin> set ks) (env w)\<rparr>)"
proof (induction ks arbitrary: w)
  case Nil
  then show ?case by simp
next
  case (Cons k ks)
  have k: "has_key (env w) k"
    using Cons.prems(2) by (auto simp: has_key_def map_of_eq_None_iff)
  have sub: "set ks \<subseteq> fst ` set (env (delitem k w))"
  proof -
    have "set (map fst (env (delitem k w))) = set (map fst (env w)) - {k}"
      by (simp add: delitem_def AList.delete_keys)
    then show ?thesis using Cons.prems by auto
  qed
  have "Return_del ks (delitem k w) =
      (Ok, (delitem k w)\<lparr>env := filter (\<lambda>kv. fst kv \<notin> set ks) (env (delitem k w))\<rparr>)"
    using Cons.IH [OF _ sub] Cons.prems(1) by simp
  moreover have "filter (\<lambda>kv. fst kv \<notin> set ks) (env (delitem k w)) =
      filter (\<lambda>kv. fst kv \<notin> set (k # ks)) (env w)"
    by (auto simp: delitem_def AList.delete_eq intro: filter_cong)
  ultimately show ?case using k by (simp add: delitem_def)
qed

lemma map_of_filter_keys:
  "map_of (filter (\<lambda>kv. fst kv \<in> A) e) = map_of e |` A"
  by (induction e) (auto simp: restrict_map_def fun_eq_iff)

lemma Return_run_filter:
  "Return_run fs w = (Ok, w\<lparr>env := filter (\<lambda>kv. fst kv \<in> set fs) (env w)\<rparr>)"
proof -
  have "Return_run fs w =
      (Ok, w\<lparr>env := filter (\<lambda>kv. fst kv \<notin> set (unwanted fs (env w))) (env w)\<rparr>)"
    unfolding Return_run_def
    by (rule Return_del_filter) (auto simp: unwanted_def)
  moreover have "filter (\<lambda>kv. fst kv \<notin> set (unwanted fs (env w))) (env w) =
      filter (\<lambda>kv. fst kv \<in> set fs) (env w)"
    by (rule filter_cong) (auto simp: unwanted_def)
  ultimately show ?thesis by simp
qed

text \<open>
  C8: \<^verbatim>\<open>Return.run\<close> never raises and keeps of the environment exactly the keys of
  \<^verbatim>\<open>self.fields\<close>, each with the value it had; the heap is untouched.
\<close>

theorem return_keeps_allow_list:
  "fst (Return_run fs w) = Ok \<and>
   heap (snd (Return_run fs w)) = heap w \<and>
   map_of (env (snd (Return_run fs w))) = map_of (env w) |` set fs \<and>
   dom (map_of (env (snd (Return_run fs w)))) = dom (map_of (env w)) \<inter> set fs"
  by (simp add: Return_run_filter map_of_filter_keys)

text \<open>The order in which the unwanted keys are deleted does not matter.\<close>

lemma return_any_order:
  assumes "distinct ks" and "set ks = fst ` set (env w) - set fs"
  shows "Return_del ks w = Return_run fs w"
proof -
  have "Return_del ks w = (Ok, w\<lparr>env := filter (\<lambda>kv. fst kv \<notin> set ks) (env w)\<rparr>)"
    using assms by (intro Return_del_filter) auto
  moreover have "filter (\<lambda>kv. fst kv \<notin> set ks) (env w) = filter (\<lambda>kv. fst kv \<in> set fs) (env w)"
    using assms(2) by (intro filter_cong) auto
  ultimately show ?thesis by (simp add: Return_run_filter)
qed

section \<open>Execute\<close>

lemma Popen_result:
  "Popen ch no_out no_err h =
    (length h + 1 + (if no_out then 0 else 1) + (if no_err then 0 else 1),
     h @ [OStdin []] @ (if no_out then [] else [OPipe (c_stdout ch)])
       @ (if no_err then [] else [OPipe (c_stderr ch)])
       @ [OProcess \<lparr>p_stdin = VRef (length h),
            p_stdout = (if no_out then VNone else VRef (length h + 1)),
            p_stderr = (if no_err then VNone else VRef (length h + 1 + (if no_out then 0 else 1))),
            p_exit = c_exit ch\<rparr>])"
  by (simp add: Popen_def Let_def)

lemma Execute_run_failure:
  "fst (Execute_run sy t w) \<noteq> Ok \<Longrightarrow> snd (Execute_run sy t w) = w"
  by (auto simp: Execute_run_def Let_def split: sum.splits prod.splits)

lemma Execute_run_success:
  assumes "substitute sy (command t) (env w) = Inr cmd"
    and "shlex_split sy cmd = Inr argv"
    and "popen sy argv = Inr ch"
  shows "Execute_run sy t w =
    (Ok, \<lparr>env = (if ignore_stderr t then id
                  else AList.update ''STDERR''
                    (VRef (length (heap w) + 1 + (if ignore_stdout t then 0 else 1))))
               ((if ignore_stdout t then id
                 else AList.update ''STDOUT'' (VRef (length (heap w) + 1)))
                (AList.update ''STDIN'' (VRef (length (heap w)))
                  (AList.update ''PROCESS''
                    (VRef (length (heap w) + 1 + (if ignore_stdout t then 0 else 1)
                        + (if ignore_stderr t then 0 else 1)))
                    (env w)))),
           heap = heap w @ [OStdin []]
             @ (if ignore_stdout t then [] else [OPipe (c_stdout ch)])
             @ (if ignore_stderr t then [] else [OPipe (c_stderr ch)])
             @ [OProcess \<lparr>p_stdin = VRef (length (heap w)),
                  p_stdout = (if ignore_stdout t then VNone else VRef (length (heap w) + 1)),
                  p_stderr = (if ignore_stderr t then VNone
                     else VRef (length (heap w) + 1 + (if ignore_stdout t then 0 else 1))),
                  p_exit = process_monitor sy (timeout t) (c_exit ch)\<rparr>]\<rparr>)"
  using assms
  by (cases w)
    (simp add: Execute_run_def Popen_result setitem_def proc_of_def start_monitor_def
      nth_append list_update_append)


lemma Execute_run_cases:
  obtains (failed) e where "Execute_run sy t w = (Raised e, w)"
    and "\<not> (\<exists>cmd argv ch. substitute sy (command t) (env w) = Inr cmd \<and>
           shlex_split sy cmd = Inr argv \<and> popen sy argv = Inr ch)"
  | (started) cmd argv ch where "substitute sy (command t) (env w) = Inr cmd"
    and "shlex_split sy cmd = Inr argv" and "popen sy argv = Inr ch"
proof (cases "substitute sy (command t) (env w)")
  case (Inl e)
  then show ?thesis by (intro failed [of e]) (simp_all add: Execute_run_def)
next
  case cmd: (Inr cmd)
  show ?thesis
  proof (cases "shlex_split sy cmd")
    case (Inl e)
    with cmd show ?thesis by (intro failed [of e]) (auto simp: Execute_run_def)
  next
    case argv: (Inr argv)
    show ?thesis
    proof (cases "popen sy argv")
      case (Inl e)
      with cmd argv show ?thesis by (intro failed [of e]) (auto simp: Execute_run_def)
    next
      case (Inr ch)
      with cmd argv show ?thesis by (intro started)
    qed
  qed
qed

text \<open>
  C7: \<^verbatim>\<open>Execute.run\<close> changes no key of the environment other than \<^verbatim>\<open>PROCESS\<close>,
  \<^verbatim>\<open>STDIN\<close>, \<^verbatim>\<open>STDOUT\<close> and \<^verbatim>\<open>STDERR\<close>, and no object that existed before. It
  succeeds exactly when the command is substituted, split and started; a failure leaves
  everything as it was. On success \<^verbatim>\<open>PROCESS\<close> holds the handle of a new process and
  \<^verbatim>\<open>STDIN\<close> its input pipe; \<^verbatim>\<open>STDOUT\<close> holds the new output pipe when the output is
  captured and is what it was before when it is not (the process then has no output
  pipe), and likewise \<^verbatim>\<open>STDERR\<close>.
\<close>

theorem execute_sets_reserved_keys:
  "(\<forall>k. k \<notin> {''PROCESS'', ''STDIN'', ''STDOUT'', ''STDERR''} \<longrightarrow>
        map_of (env (snd (Execute_run sy t w))) k = map_of (env w) k)
 \<and> take (length (heap w)) (heap (snd (Execute_run sy t w))) = heap w
 \<and> (fst (Execute_run sy t w) \<noteq> Ok \<longrightarrow> snd (Execute_run sy t w) = w)
 \<and> (fst (Execute_run sy t w) = Ok \<longleftrightarrow>
      (\<exists>cmd argv ch. substitute sy (command t) (env w) = Inr cmd \<and>
         shlex_split sy cmd = Inr argv \<and> popen sy argv = Inr ch))
 \<and> (fst (Execute_run sy t w) = Ok \<longrightarrow>
      (\<exists>p pr i. map_of (env (snd (Execute_run sy t w))) ''PROCESS'' = Some (VRef p)
         \<and> length (heap w) \<le> p
         \<and> deref (heap (snd (Execute_run sy t w))) (VRef p) = Some (OProcess pr)
         \<and> map_of (env (snd (Execute_run sy t w))) ''STDIN'' = Some (p_stdin pr)
         \<and> p_stdin pr = VRef i \<and> length (heap w) \<le> i
         \<and> deref (heap (snd (Execute_run sy t w))) (VRef i) = Some (OStdin [])
         \<and> map_of (env (snd (Execute_run sy t w))) ''STDOUT'' =
             (if ignore_stdout t then map_of (env w) ''STDOUT'' else Some (p_stdout pr))
         \<and> map_of (env (snd (Execute_run sy t w))) ''STDERR'' =
             (if ignore_stderr t then map_of (env w) ''STDERR'' else Some (p_stderr pr))
         \<and> (if ignore_stdout t then p_stdout pr = VNone
             else \<exists>out rd. p_stdout pr = VRef out \<and> length (heap w) \<le> out \<and>
               deref (heap (snd (Execute_run sy t w))) (VRef out) = Some (OPipe rd))
         \<and> (if ignore_stderr t then p_stderr pr = VNone
             else \<exists>err rd. p_stderr pr = VRef err \<and> length (heap w) \<le> err \<and>
               deref (heap (snd (Execute_run sy t w))) (VRef err) = Some (OPipe rd))))"
proof (cases rule: Execute_run_cases [of sy t w])
  case (failed e)
  then show ?thesis by simp
next
  case (started cmd argv ch)
  note run = Execute_run_success [OF started]
  have frame: "\<forall>k. k \<notin> {''PROCESS'', ''STDIN'', ''STDOUT'', ''STDERR''} \<longrightarrow>
        map_of (env (snd (Execute_run sy t w))) k = map_of (env w) k"
    by (simp add: run AList.update_conv')
  have old: "take (length (heap w)) (heap (snd (Execute_run sy t w))) = heap w"
    by (simp add: run)
  have ok: "fst (Execute_run sy t w) = Ok"
    by (simp add: run)
  have new: "\<exists>p pr i. map_of (env (snd (Execute_run sy t w))) ''PROCESS'' = Some (VRef p)
         \<and> length (heap w) \<le> p
         \<and> deref (heap (snd (Execute_run sy t w))) (VRef p) = Some (OProcess pr)
         \<and> map_of (env (snd (Execute_run sy t w))) ''STDIN'' = Some (p_stdin pr)
         \<and> p_stdin pr = VRef i \<and> length (heap w) \<le> i
         \<and> deref (heap (snd (Execute_run sy t w))) (VRef i) = Some (OStdin [])
         \<and> map_of (env (snd (Execute_run sy t w))) ''STDOUT'' =
             (if ignore_stdout t then map_of (env w) ''STDOUT'' else Some (p_stdout pr))
         \<and> map_of (env (snd (Execute_run sy t w))) ''STDERR'' =
             (if ignore_stderr t then map_of (env w) ''STDERR'' else Some (p_stderr pr))
         \<and> (if ignore_stdout t then p_stdout pr = VNone
             else \<exists>out rd. p_stdout pr = VRef out \<and> length (heap w) \<le> out \<and>
               deref (heap (snd (Execute_run sy t w))) (VRef out) = Some (OPipe rd))
         \<and> (if ignore_stderr t then p_stderr pr = VNone
             else \<exists>err rd. p_stderr pr = VRef err \<and> length (heap w) \<le> err \<and>
               deref (heap (snd (Execute_run sy t w))) (VRef err) = Some (OPipe rd))"
    by (cases "ignore_stdout t"; cases "ignore_stderr t")
      (simp_all add: run AList.update_conv' nth_append)
  from frame old ok new started show ?thesis by blast
qed

theorem execute_sets_reserved_keys_witness:
  "Execute_run demo_sys echo seeded = (Ok, executed)
   \<and> map_of (env executed) ''x'' = map_of (env seeded) ''x''
   \<and> take (length (heap seeded)) (heap executed) = heap seeded
   \<and> (\<exists>p pr i. map_of (env (snd (Execute_run demo_sys echo seeded))) ''PROCESS'' = Some (VRef p)
         \<and> length (heap seeded) \<le> p
         \<and> deref (heap (snd (Execute_run demo_sys echo seeded))) (VRef p) = Some (OProcess pr)
         \<and> map_of (env (snd (Execute_run demo_sys echo seeded))) ''STDIN'' = Some (p_stdin pr)
         \<and> p_stdin pr = VRef i \<and> length (heap seeded) \<le> i
         \<and> deref (heap (snd (Execute_run demo_sys echo seeded))) (VRef i) = Some (OStdin [])
         \<and> map_of (env (snd (Execute_run demo_sys echo seeded))) ''STDOUT'' =
             (if ignore_stdout echo then map_of (env seeded) ''STDOUT'' else Some (p_stdout pr))
         \<and> map_of (env (snd (Execute_run demo_sys echo seeded))) ''STDERR'' =
             (if ignore_stderr echo then map_of (env seeded) ''STDERR'' else Some (p_stderr pr))
         \<and> (if ignore_stdout echo then p_stdout pr = VNone
             else \<exists>out rd. p_stdout pr = VRef out \<and> length (heap seeded) \<le> out \<and>
               deref (heap (snd (Execute_run demo_sys echo seeded))) (VRef out) = Some (OPipe rd))
         \<and> (if ignore_stderr echo then p_stderr pr = VNone
             else \<exists>err rd. p_stderr pr = VRef err \<and> length (heap seeded) \<le> err \<and>
               deref (heap (snd (Execute_run demo_sys echo seeded))) (VRef err) = Some (OPipe rd)))"
proof -
  have run: "Execute_run demo_sys echo seeded = (Ok, executed)"
    by (simp add: Execute_run_def demo_sys_def echo_def seeded_def executed_def Popen_def
        setitem_def proc_of_def start_monitor_def)
  have ok: "fst (Execute_run demo_sys echo seeded) = Ok"
    by (simp add: run)
  have not_reserved: "''x'' \<notin> {''PROCESS'', ''STDIN'', ''STDOUT'', ''STDERR''}"
    by simp
  note inst = execute_sets_reserved_keys [of demo_sys echo seeded]
  from inst [THEN conjunct1] not_reserved
  have "map_of (env (snd (Execute_run demo_sys echo seeded))) ''x'' = map_of (env seeded) ''x''"
    by blast
  then have x: "map_of (env executed) ''x'' = map_of (env seeded) ''x''"
    by (simp add: run)
  from inst [THEN conjunct2, THEN conjunct1]
  have old: "take (length (heap seeded)) (heap executed) = heap seeded"
    by (simp add: run)
  note new = inst [THEN conjunct2, THEN conjunct2, THEN conjunct2, THEN conjunct2, THEN mp, OF ok]
  show ?thesis
    by (intro conjI run x old new)
qed

section \<open>Receive\<close>

lemma take_line_line: "is_line l \<Longrightarrow> take_line (l @ xs) = l"
proof (induction l)
  case Nil
  then show ?case by (simp add: is_line_def)
next
  case (Cons c cs)
  show ?case
  proof (cases "cs = []")
    case True
    with Cons.prems show ?thesis by (simp add: is_line_def)
  next
    case False
    with Cons.prems have "c \<noteq> nl" and "is_line cs"
      by (auto simp: is_line_def)
    with Cons.IH show ?thesis by simp
  qed
qed

lemma nl_in_line: "is_line l \<Longrightarrow> nl \<in> set (l @ xs)"
  by (cases l rule: rev_cases) (auto simp: is_line_def)

lemma reader_readline_line:
  assumes "is_line l" and "pending rd = l @ xs"
  shows "reader_readline err rd = Some (Inr l, rd\<lparr>pending := xs\<rparr>)"
  using assms nl_in_line [OF assms(1), of xs]
  by (simp add: reader_readline_def take_line_line)

lemma is_line_nonempty: "is_line l \<Longrightarrow> l \<noteq> []"
  by (simp add: is_line_def)

lemma recv_loop_lines:
  assumes "\<forall>l\<in>set ls. is_line l"
    and "out < length h" and "h ! out = OStringIO b" and "pos b = length (buf b)"
    and "f < length h" and "h ! f = OSockFile rd" and "pending rd = concat ls @ rest"
  shows "recv_loop (length ls) (VRef out) (VRef f) h =
    Some (Ok, h[f := OSockFile (rd\<lparr>pending := rest\<rparr>),
                out := OStringIO (b\<lparr>buf := buf b @ concat ls,
                                      pos := length (buf b) + length (concat ls)\<rparr>)])"
  using assms
proof (induction ls arbitrary: h b rd)
  case Nil
  have rd: "rd\<lparr>pending := rest\<rparr> = rd"
    using Nil.prems(7) by (cases rd) simp
  have b: "b\<lparr>buf := buf b @ concat [], pos := length (buf b) + length (concat [])\<rparr> = b"
    using Nil.prems(4) by (cases b) simp
  have "h[f := OSockFile rd, out := OStringIO b] = h"
    using Nil.prems(3,6) by (metis list_update_id)
  then show ?case
    unfolding rd b by simp
next
  case (Cons l ls)
  from Cons.prems have l: "is_line l" and ls: "\<forall>l\<in>set ls. is_line l"
    by simp_all
  from Cons.prems have ne: "out \<noteq> f"
    by auto
  let ?rd = "rd\<lparr>pending := concat ls @ rest\<rparr>"
  let ?h1 = "h[f := OSockFile ?rd]"
  let ?b = "b\<lparr>buf := buf b @ l, pos := length (buf b) + length l\<rparr>"
  let ?h2 = "?h1[out := OStringIO ?b]"
  have rl: "m_readline h (VRef f) = Some (Inr l, ?h1)"
    using Cons.prems reader_readline_line [OF l, of rd "concat ls @ rest" SocketError]
    by simp
  have wr: "m_write ?h1 (VRef out) l = Inr ?h2"
    using Cons.prems ne is_line_nonempty [OF l]
    by (cases b) (simp add: sio_write_def)
  have step: "recv_loop (length (l # ls)) (VRef out) (VRef f) h =
      recv_loop (length ls) (VRef out) (VRef f) ?h2"
    by (simp add: rl wr del: m_readline.simps m_write.simps)
  have "recv_loop (length ls) (VRef out) (VRef f) ?h2 =
      Some (Ok, ?h2[f := OSockFile (?rd\<lparr>pending := rest\<rparr>),
                out := OStringIO (?b\<lparr>buf := buf ?b @ concat ls,
                                      pos := length (buf ?b) + length (concat ls)\<rparr>)])"
    using Cons.prems ne
    by (intro Cons.IH [OF ls]) simp_all
  also have "?h2[f := OSockFile (?rd\<lparr>pending := rest\<rparr>),
                out := OStringIO (?b\<lparr>buf := buf ?b @ concat ls,
                                      pos := length (buf ?b) + length (concat ls)\<rparr>)] =
      h[f := OSockFile (rd\<lparr>pending := rest\<rparr>),
        out := OStringIO (b\<lparr>buf := buf b @ concat (l # ls),
                              pos := length (buf b) + length (concat (l # ls))\<rparr>)]"
    using ne by (simp add: list_update_swap [of out f] add.assoc)
  finally show ?case using step by simp
qed

lemma m_seek_frame:
  "m_seek h v g = Inr h' \<Longrightarrow> length h' = length h \<and> (\<forall>i. v \<noteq> VRef i \<longrightarrow> h' ! i = h ! i)"
  by (cases v) (auto split: if_splits obj.splits)

lemma m_write_frame:
  "m_write h v s = Inr h' \<Longrightarrow> length h' = length h \<and> (\<forall>i. v \<noteq> VRef i \<longrightarrow> h' ! i = h ! i)"
  by (cases v) (auto split: if_splits obj.splits)

lemma m_readline_frame:
  "m_readline h v = Some (res, h') \<Longrightarrow>
     length h' = length h \<and> (\<forall>i. v \<noteq> VRef i \<longrightarrow> h' ! i = h ! i)"
  by (cases v) (auto split: if_splits obj.splits option.splits)

lemma recv_loop_frame:
  "recv_loop n out s h = Some (r, h') \<Longrightarrow>
     length h' = length h \<and> (\<forall>i. out \<noteq> VRef i \<and> s \<noteq> VRef i \<longrightarrow> h' ! i = h ! i)"
proof (induction n arbitrary: h)
  case 0
  then show ?case by simp
next
  case (Suc n)
  from Suc.prems obtain res h1 where rl: "m_readline h s = Some (res, h1)"
    by (cases "m_readline h s") auto
  note f1 = m_readline_frame [OF rl]
  show ?case
  proof (cases res)
    case (Inl e)
    with Suc.prems rl f1 show ?thesis by auto
  next
    case (Inr line)
    show ?thesis
    proof (cases "m_write h1 out line")
      case (Inl e)
      with Suc.prems rl Inr f1 show ?thesis by auto
    next
      case wr: (Inr h2)
      note f2 = m_write_frame [OF wr]
      from Suc.prems rl Inr wr have "recv_loop n out s h2 = Some (r, h')"
        by simp
      from Suc.IH [OF this] f1 f2 show ?thesis by simp
    qed
  qed
qed

lemma receive_lines_delivered:
  assumes "map_of (env w) ''SOCKET'' = Some sk"
    and "map_of (env w) ''STDOUT'' = Some (VRef out)"
    and "out < length (heap w)" and "heap w ! out = OStringIO b"
    and "map_of (env w) ''SOCKET_FILE'' = Some (VRef f)"
    and "f < length (heap w)" and "heap w ! f = OSockFile rd"
    and "pending rd = concat ls @ rest"
    and "\<forall>l\<in>set ls. is_line l"
    and "length ls = nat (numlines t)"
  shows "Receive_run t w =
    Some (Ok, w\<lparr>heap := (heap w)[f := OSockFile (rd\<lparr>pending := rest\<rparr>),
                                  out := OStringIO (b\<lparr>buf := buf b @ concat ls\<rparr>)]\<rparr>)"
proof -
  let ?b = "b\<lparr>pos := length (buf b)\<rparr>"
  let ?h1 = "(heap w)[out := OStringIO ?b]"
  from assms have ne: "out \<noteq> f"
    by auto
  have tell: "m_tell (heap w) (VRef out) = Inr (pos b)"
    using assms by (simp add: m_tell_def)
  have seek: "m_seek (heap w) (VRef out) (\<lambda>b. length (buf b)) = Inr ?h1"
    using assms by simp
  have "recv_loop (length ls) (VRef out) (VRef f) ?h1 =
    Some (Ok, ?h1[f := OSockFile (rd\<lparr>pending := rest\<rparr>),
                out := OStringIO (?b\<lparr>buf := buf ?b @ concat ls,
                                      pos := length (buf ?b) + length (concat ls)\<rparr>)])"
    using assms ne by (intro recv_loop_lines) simp_all
  then have loop: "recv_loop (nat (numlines t)) (VRef out) (VRef f) ?h1 =
    Some (Ok, (heap w)[f := OSockFile (rd\<lparr>pending := rest\<rparr>),
                out := OStringIO (b\<lparr>buf := buf b @ concat ls,
                                      pos := length (buf b) + length (concat ls)\<rparr>)])"
    using assms(10) ne by (simp add: list_update_swap [of out f])
  have restore: "m_seek ((heap w)[f := OSockFile (rd\<lparr>pending := rest\<rparr>),
                out := OStringIO (b\<lparr>buf := buf b @ concat ls,
                                      pos := length (buf b) + length (concat ls)\<rparr>)])
             (VRef out) (\<lambda>x. pos b) =
      Inr ((heap w)[f := OSockFile (rd\<lparr>pending := rest\<rparr>),
                out := OStringIO (b\<lparr>buf := buf b @ concat ls\<rparr>)])"
    using assms by simp
  show ?thesis
    using assms(1,2,5)
    by (simp add: Receive_run_def has_key_def getitem_def tell seek loop restore
        del: m_seek.simps)
qed

lemma m_readline_buffer:
  assumes "m_readline h s = Some (res, h1)"
    and "out < length h" and "h ! out = OStringIO b" and "pos b = length (buf b)"
  shows "h1 ! out = OStringIO b"
proof (cases "s = VRef out")
  case True
  have "sio_readline b = ([], b)"
    using assms(4) by (cases b) (simp add: sio_readline_def)
  with assms True show ?thesis
    by (auto simp: list_update_same_conv)
next
  case False
  with m_readline_frame [OF assms(1)] assms(3) show ?thesis
    by simp
qed

lemma recv_loop_buffer:
  assumes "recv_loop n (VRef out) s h = Some (r, h')"
    and "out < length h" and "h ! out = OStringIO b" and "pos b = length (buf b)"
  shows "\<exists>b'. h' ! out = OStringIO b' \<and> pos b' = length (buf b') \<and>
           take (length (buf b)) (buf b') = buf b"
  using assms
proof (induction n arbitrary: h b)
  case 0
  then show ?case by auto
next
  case (Suc n)
  from Suc.prems(1) obtain res h1 where rl: "m_readline h s = Some (res, h1)"
    by (cases "m_readline h s") auto
  note same = m_readline_buffer [OF rl Suc.prems(2,3,4)]
  from m_readline_frame [OF rl] Suc.prems(2) have len1: "out < length h1"
    by simp
  show ?case
  proof (cases res)
    case (Inl e)
    with Suc.prems rl same show ?thesis by auto
  next
    case (Inr line)
    from same len1 have wr: "m_write h1 (VRef out) line = Inr (h1[out := OStringIO (sio_write line b)])"
      by simp
    with Suc.prems(1) rl Inr have
      rec: "recv_loop n (VRef out) s (h1[out := OStringIO (sio_write line b)]) = Some (r, h')"
      by simp
    have inv: "pos (sio_write line b) = length (buf (sio_write line b))"
      and pre: "take (length (buf b)) (buf (sio_write line b)) = buf b"
      using Suc.prems(4) by (simp_all add: sio_write_def)
    from Suc.IH [OF rec _ _ inv] len1 obtain b' where
      "h' ! out = OStringIO b'" and "pos b' = length (buf b')"
      and "take (length (buf (sio_write line b))) (buf b') = buf (sio_write line b)"
      by auto
    moreover from this(3) pre have "take (length (buf b)) (buf b') = buf b"
      by (metis append_eq_conv_conj append_take_drop_id append.assoc)
    ultimately show ?thesis by blast
  qed
qed

lemma receive_restores_cursor:
  assumes run: "Receive_run t w = Some (Ok, w')"
    and out: "map_of (env w) ''STDOUT'' = Some (VRef out)"
    and len: "out < length (heap w)" and buf: "heap w ! out = OStringIO b"
  shows "\<exists>b'. heap w' ! out = OStringIO b' \<and> pos b' = pos b \<and>
           take (length (buf b)) (buf b') = buf b"
proof -
  let ?h1 = "(heap w)[out := OStringIO (b\<lparr>pos := length (buf b)\<rparr>)]"
  have tell: "m_tell (heap w) (VRef out) = Inr (pos b)"
    using len buf by (simp add: m_tell_def)
  have seek: "m_seek (heap w) (VRef out) (\<lambda>b. length (buf b)) = Inr ?h1"
    using len buf by simp
  from run out tell seek obtain s h2 where
    loop: "recv_loop (nat (numlines t)) (VRef out) s ?h1 = Some (Ok, h2)"
    and fin: "m_seek h2 (VRef out) (\<lambda>x. pos b) = Inr (heap w')"
    by (auto simp: Receive_run_def getitem_def
        simp del: m_seek.simps
        split: if_splits sum.splits option.splits outcome.splits)
  from recv_loop_buffer [OF loop, of "b\<lparr>pos := length (buf b)\<rparr>"] len obtain b2 where
    b2: "h2 ! out = OStringIO b2" and pre: "take (length (buf b)) (buf b2) = buf b"
    by auto
  from recv_loop_frame [OF loop] len have "out < length h2"
    by simp
  with fin b2 have "heap w' = h2[out := OStringIO (b2\<lparr>pos := pos b\<rparr>)]"
    by simp
  with \<open>out < length h2\<close> have "heap w' ! out = OStringIO (b2\<lparr>pos := pos b\<rparr>)"
    by simp
  with pre show ?thesis by simp
qed

text \<open>
  C2, as the code has it, in an environment with an open channel (the key \<^verbatim>\<open>SOCKET\<close> and
  a \<^verbatim>\<open>StringIO\<close> buffer under \<^verbatim>\<open>STDOUT\<close>). When the file object of the socket is under
  \<^verbatim>\<open>SOCKET_FILE\<close> and the peer sends at least \<^verbatim>\<open>numlines\<close> complete newline-terminated
  lines (none for a negative \<^verbatim>\<open>numlines\<close>), \<^verbatim>\<open>Receive.run\<close> returns, the buffer is its
  old content followed by exactly these lines, its cursor is where it was, and the lines
  are consumed from the socket. And whenever \<^verbatim>\<open>Receive.run\<close> returns normally, the cursor
  of the buffer is where it was and the old content is still there, at the beginning.
\<close>

theorem receive_appends_lines:
  assumes "map_of (env w) ''SOCKET'' = Some sk"
    and "map_of (env w) ''STDOUT'' = Some (VRef out)"
    and "out < length (heap w)" and "heap w ! out = OStringIO b"
  shows "(map_of (env w) ''SOCKET_FILE'' = Some (VRef f) \<and> f < length (heap w) \<and>
      heap w ! f = OSockFile rd \<and> pending rd = concat ls @ rest \<and>
      (\<forall>l\<in>set ls. is_line l) \<and> length ls = nat (numlines t) \<longrightarrow>
        Receive_run t w =
          Some (Ok, w\<lparr>heap := (heap w)[f := OSockFile (rd\<lparr>pending := rest\<rparr>),
                                        out := OStringIO (b\<lparr>buf := buf b @ concat ls\<rparr>)]\<rparr>))
    \<and> (Receive_run t w = Some (Ok, w') \<longrightarrow>
        (\<exists>b'. heap w' ! out = OStringIO b' \<and> pos b' = pos b \<and>
           take (length (buf b)) (buf b') = buf b))"
  using assms receive_lines_delivered [of w sk out b f rd ls rest t]
    receive_restores_cursor [of t w w' out b]
  by blast

text \<open>
  Without the condition on the peer the statement fails: when the peer has closed the
  connection, \<^verbatim>\<open>readline\<close> returns the empty string, and \<^verbatim>\<open>Receive(numlines=1)\<close> returns
  with nothing appended.
\<close>

theorem receive_appends_lines_counterexample:
  "numlines receive_one = 1 \<and> Receive_run receive_one hung_up = Some (Ok, hung_up)"
  by (simp add: Receive_run_def receive_one_def hung_up_def has_key_def getitem_def m_tell_def
      reader_readline_def sio_write_def nl_def)

theorem receive_appends_lines_witness:
  "Receive_run receive_two connected =
    Some (Ok, connected\<lparr>heap := (heap connected)[1 := OSockFile \<lparr>pending = ''c'', ending = Eof\<rparr>,
            2 := OStringIO \<lparr>buf = ''a'' @ [nl] @ ''b'' @ [nl], pos = 0\<rparr>]\<rparr>)
   \<and> (\<exists>b'. heap (connected\<lparr>heap := (heap connected)[1 := OSockFile \<lparr>pending = ''c'', ending = Eof\<rparr>,
            2 := OStringIO \<lparr>buf = ''a'' @ [nl] @ ''b'' @ [nl], pos = 0\<rparr>]\<rparr>) ! 2 = OStringIO b' \<and>
         pos b' = pos \<lparr>buf = [], pos = 0\<rparr> \<and>
         take (length (buf \<lparr>buf = [], pos = 0\<rparr>)) (buf b') = buf \<lparr>buf = [], pos = 0\<rparr>)"
proof -
  let ?rd = "\<lparr>pending = ''a'' @ [nl] @ ''b'' @ [nl] @ ''c'', ending = Eof\<rparr>"
  let ?b = "\<lparr>buf = [], pos = 0\<rparr>"
  let ?w' = "connected\<lparr>heap := (heap connected)[1 := OSockFile \<lparr>pending = ''c'', ending = Eof\<rparr>,
            2 := OStringIO \<lparr>buf = ''a'' @ [nl] @ ''b'' @ [nl], pos = 0\<rparr>]\<rparr>"
  have channel: "map_of (env connected) ''SOCKET'' = Some (VRef 0)"
    "map_of (env connected) ''STDOUT'' = Some (VRef 2)"
    "2 < length (heap connected)" "heap connected ! 2 = OStringIO ?b"
    by (simp_all add: connected_def)
  note inst = receive_appends_lines [where f = 1 and rd = ?rd
      and ls = "[''a'' @ [nl], ''b'' @ [nl]]" and rest = "''c''" and t = receive_two
      and w' = ?w', OF channel]
  have peer: "map_of (env connected) ''SOCKET_FILE'' = Some (VRef 1) \<and>
      1 < length (heap connected) \<and> heap connected ! 1 = OSockFile ?rd \<and>
      pending ?rd = concat [''a'' @ [nl], ''b'' @ [nl]] @ ''c'' \<and>
      (\<forall>l\<in>set [''a'' @ [nl], ''b'' @ [nl]]. is_line l) \<and>
      length [''a'' @ [nl], ''b'' @ [nl]] = nat (numlines receive_two)"
    by (simp add: connected_def receive_two_def is_line_def nl_def)
  from inst [THEN conjunct1, THEN mp, OF peer]
  have run: "Receive_run receive_two connected = Some (Ok, ?w')"
    by simp
  from inst [THEN conjunct2, THEN mp, OF run] run show ?thesis
    by (intro conjI)
qed

lemma take_line_prefix: "take_line s @ drop (length (take_line s)) s = s"
  by (induction s) auto

lemma reader_readline_consumes:
  assumes "reader_readline err rd = Some (res, rd')"
  shows "\<exists>data. pending rd = data @ pending rd' \<and>
           (case res of Inl e \<Rightarrow> data = [] | Inr line \<Rightarrow> data = line)"
proof (cases "nl \<in> set (pending rd)")
  case True
  with assms take_line_prefix [of "pending rd"] show ?thesis
    by (auto simp: reader_readline_def)
next
  case False
  with assms show ?thesis
    by (cases "ending rd") (auto simp: reader_readline_def)
qed

lemma recv_loop_transfers:
  assumes "recv_loop n (VRef out) (VRef f) h = Some (r, h')"
    and "out < length h" and "h ! out = OStringIO b" and "pos b = length (buf b)"
    and "f < length h" and "h ! f = OSockFile rd"
  shows "\<exists>b' rd' data. h' ! out = OStringIO b' \<and> h' ! f = OSockFile rd' \<and>
           pending rd = data @ pending rd' \<and> buf b' = buf b @ data \<and>
           pos b' = length (buf b')"
  using assms
proof (induction n arbitrary: h b rd)
  case 0
  then show ?case by auto
next
  case (Suc n)
  from Suc.prems have ne: "out \<noteq> f"
    by auto
  from Suc.prems(1) obtain res h1 where rl: "m_readline h (VRef f) = Some (res, h1)"
    by (cases "m_readline h (VRef f)") auto
  with Suc.prems(5,6) obtain rd1 where rr: "reader_readline SocketError rd = Some (res, rd1)"
    and h1: "h1 = h[f := OSockFile rd1]"
    by (auto split: option.splits)
  from reader_readline_consumes [OF rr] obtain d1 where
    d1: "pending rd = d1 @ pending rd1"
    and res: "case res of Inl e \<Rightarrow> d1 = [] | Inr line \<Rightarrow> d1 = line"
    by blast
  show ?case
  proof (cases res)
    case (Inl e)
    with Suc.prems(1) rl have "h' = h1"
      by simp
    with h1 ne Suc.prems d1 res Inl show ?thesis
      by auto
  next
    case (Inr line)
    let ?b = "sio_write line b"
    let ?h2 = "h1[out := OStringIO ?b]"
    from h1 ne Suc.prems have wr: "m_write h1 (VRef out) line = Inr ?h2"
      by simp
    with Suc.prems(1) rl Inr have rec: "recv_loop n (VRef out) (VRef f) ?h2 = Some (r, h')"
      by simp
    have inv: "pos ?b = length (buf ?b)" and app: "buf ?b = buf b @ line"
      using Suc.prems(4) by (simp_all add: sio_write_def)
    from h1 ne Suc.prems have pre: "out < length ?h2" "?h2 ! out = OStringIO ?b"
      "f < length ?h2" "?h2 ! f = OSockFile rd1"
      by simp_all
    from Suc.IH [OF rec pre(1,2) inv pre(3,4)] obtain b' rd' data where
      "h' ! out = OStringIO b'" "h' ! f = OSockFile rd'"
      "pending rd1 = data @ pending rd'" "buf b' = buf ?b @ data" "pos b' = length (buf b')"
      by blast
    with d1 res Inr app show ?thesis
      by auto
  qed
qed

lemma receive_transfers:
  assumes run: "Receive_run t w = Some (Ok, w')"
    and out: "map_of (env w) ''STDOUT'' = Some (VRef out)"
    and len: "out < length (heap w)" and buf: "heap w ! out = OStringIO b"
    and sfile: "map_of (env w) ''SOCKET_FILE'' = Some (VRef f)"
    and flen: "f < length (heap w)" and rd: "heap w ! f = OSockFile rd"
  shows "\<exists>b' rd' data. heap w' ! out = OStringIO b' \<and> heap w' ! f = OSockFile rd' \<and>
           pending rd = data @ pending rd' \<and> buf b' = buf b @ data \<and> pos b' = pos b"
proof -
  let ?b = "b\<lparr>pos := length (buf b)\<rparr>"
  let ?h1 = "(heap w)[out := OStringIO ?b]"
  from buf rd have ne: "out \<noteq> f"
    by auto
  have tell: "m_tell (heap w) (VRef out) = Inr (pos b)"
    using len buf by (simp add: m_tell_def)
  have seek: "m_seek (heap w) (VRef out) (\<lambda>b. length (buf b)) = Inr ?h1"
    using len buf by simp
  from run out sfile tell seek obtain h2 where
    loop: "recv_loop (nat (numlines t)) (VRef out) (VRef f) ?h1 = Some (Ok, h2)"
    and fin: "m_seek h2 (VRef out) (\<lambda>x. pos b) = Inr (heap w')"
    by (auto simp: Receive_run_def getitem_def
        simp del: m_seek.simps
        split: if_splits sum.splits option.splits outcome.splits)
  from recv_loop_transfers [OF loop, of ?b rd] len flen ne rd obtain b2 rd' data where
    b2: "h2 ! out = OStringIO b2" and f2: "h2 ! f = OSockFile rd'"
    and data: "pending rd = data @ pending rd'" "buf b2 = buf b @ data"
    by auto
  from recv_loop_frame [OF loop] len have "out < length h2"
    by simp
  with fin b2 have "heap w' = h2[out := OStringIO (b2\<lparr>pos := pos b\<rparr>)]"
    by simp
  with \<open>out < length h2\<close> ne f2 have "heap w' ! out = OStringIO (b2\<lparr>pos := pos b\<rparr>)"
    and "heap w' ! f = OSockFile rd'"
    by simp_all
  with data show ?thesis by simp
qed

text \<open>
  C9: for every \<^verbatim>\<open>name\<close>, \<^verbatim>\<open>Receive.run\<close> does what it does for any other name.
  \<^item> When it returns, the environment has the keys and values it had, so no field called
    \<^verbatim>\<open>name\<close> is created or written, and the only objects that can differ are those under
    \<^verbatim>\<open>STDOUT\<close> and \<^verbatim>\<open>SOCKET_FILE\<close>.
  \<^item> When it returns normally, with a \<^verbatim>\<open>StringIO\<close> buffer under \<^verbatim>\<open>STDOUT\<close> and the file
    object of the socket under \<^verbatim>\<open>SOCKET_FILE\<close>, what was taken from the socket is what was
    appended to the buffer of \<^verbatim>\<open>STDOUT\<close>, whose cursor is where it was.
  \<^item> When the peer sends at least \<^verbatim>\<open>numlines\<close> complete lines, it returns normally and
    exactly these lines are appended to the buffer of \<^verbatim>\<open>STDOUT\<close>.
\<close>

theorem receive_ignores_name:
  "Receive_run (t\<lparr>name := a\<rparr>) w = Receive_run t w
 \<and> (Receive_run (t\<lparr>name := a\<rparr>) w = Some (r, w') \<longrightarrow>
      env w' = env w \<and> length (heap w') = length (heap w) \<and>
      (\<forall>i. map_of (env w) ''STDOUT'' \<noteq> Some (VRef i) \<and>
           map_of (env w) ''SOCKET_FILE'' \<noteq> Some (VRef i) \<longrightarrow> heap w' ! i = heap w ! i))
 \<and> (Receive_run (t\<lparr>name := a\<rparr>) w = Some (Ok, w') \<and>
     map_of (env w) ''STDOUT'' = Some (VRef out) \<and> out < length (heap w) \<and>
     heap w ! out = OStringIO b \<and>
     map_of (env w) ''SOCKET_FILE'' = Some (VRef f) \<and> f < length (heap w) \<and>
     heap w ! f = OSockFile rd \<longrightarrow>
      (\<exists>b' rd' data. heap w' ! out = OStringIO b' \<and> heap w' ! f = OSockFile rd' \<and>
         pending rd = data @ pending rd' \<and> buf b' = buf b @ data \<and> pos b' = pos b))
 \<and> (map_of (env w) ''SOCKET'' = Some sk \<and>
     map_of (env w) ''STDOUT'' = Some (VRef out) \<and> out < length (heap w) \<and>
     heap w ! out = OStringIO b \<and>
     map_of (env w) ''SOCKET_FILE'' = Some (VRef f) \<and> f < length (heap w) \<and>
     heap w ! f = OSockFile rd \<and> pending rd = concat ls @ rest \<and>
     (\<forall>l\<in>set ls. is_line l) \<and> length ls = nat (numlines t) \<longrightarrow>
      Receive_run (t\<lparr>name := a\<rparr>) w =
        Some (Ok, w\<lparr>heap := (heap w)[f := OSockFile (rd\<lparr>pending := rest\<rparr>),
                                      out := OStringIO (b\<lparr>buf := buf b @ concat ls\<rparr>)]\<rparr>))"
proof -
  have "numlines (t\<lparr>name := a\<rparr>) = numlines t"
    by simp
  then have same: "Receive_run (t\<lparr>name := a\<rparr>) w = Receive_run t w"
    unfolding Receive_run_def by (rule arg_cong)
  have frame: "Receive_run t w = Some (r, w') \<longrightarrow>
      env w' = env w \<and> length (heap w') = length (heap w) \<and>
      (\<forall>i. map_of (env w) ''STDOUT'' \<noteq> Some (VRef i) \<and>
           map_of (env w) ''SOCKET_FILE'' \<noteq> Some (VRef i) \<longrightarrow> heap w' ! i = heap w ! i)"
  proof (intro conjI impI)
    assume run: "Receive_run t w = Some (r, w')"
    show "env w' = env w"
      using run
      by (auto simp: Receive_run_def split: if_splits sum.splits option.splits outcome.splits)
    show "length (heap w') = length (heap w)"
      using run
      by (auto simp: Receive_run_def split: if_splits sum.splits option.splits outcome.splits
          dest!: m_seek_frame recv_loop_frame)
    show "\<forall>i. map_of (env w) ''STDOUT'' \<noteq> Some (VRef i) \<and>
             map_of (env w) ''SOCKET_FILE'' \<noteq> Some (VRef i) \<longrightarrow> heap w' ! i = heap w ! i"
      using run
      by (auto simp: Receive_run_def getitem_def
          split: if_splits sum.splits option.splits outcome.splits
          dest!: m_seek_frame recv_loop_frame)
  qed
  have moved: "Receive_run t w = Some (Ok, w') \<and>
     map_of (env w) ''STDOUT'' = Some (VRef out) \<and> out < length (heap w) \<and>
     heap w ! out = OStringIO b \<and>
     map_of (env w) ''SOCKET_FILE'' = Some (VRef f) \<and> f < length (heap w) \<and>
     heap w ! f = OSockFile rd \<longrightarrow>
      (\<exists>b' rd' data. heap w' ! out = OStringIO b' \<and> heap w' ! f = OSockFile rd' \<and>
         pending rd = data @ pending rd' \<and> buf b' = buf b @ data \<and> pos b' = pos b)"
    using receive_transfers [of t w w' out b f rd] by blast
  have lines: "map_of (env w) ''SOCKET'' = Some sk \<and>
     map_of (env w) ''STDOUT'' = Some (VRef out) \<and> out < length (heap w) \<and>
     heap w ! out = OStringIO b \<and>
     map_of (env w) ''SOCKET_FILE'' = Some (VRef f) \<and> f < length (heap w) \<and>
     heap w ! f = OSockFile rd \<and> pending rd = concat ls @ rest \<and>
     (\<forall>l\<in>set ls. is_line l) \<and> length ls = nat (numlines t) \<longrightarrow>
      Receive_run t w =
        Some (Ok, w\<lparr>heap := (heap w)[f := OSockFile (rd\<lparr>pending := rest\<rparr>),
                                      out := OStringIO (b\<lparr>buf := buf b @ concat ls\<rparr>)]\<rparr>)"
    using receive_lines_delivered [of w sk out b f rd ls rest t] by blast
  show ?thesis
    unfolding same by (intro conjI refl frame moved lines)
qed


theorem receive_ignores_name_witness:
  "Receive_run (receive_two\<lparr>name := ''other''\<rparr>) connected = Receive_run receive_two connected
   \<and> Receive_run (receive_two\<lparr>name := ''other''\<rparr>) connected =
      Some (Ok, connected\<lparr>heap := (heap connected)[1 := OSockFile \<lparr>pending = ''c'', ending = Eof\<rparr>,
            2 := OStringIO \<lparr>buf = ''a'' @ [nl] @ ''b'' @ [nl], pos = 0\<rparr>]\<rparr>)
   \<and> map_of (env (connected\<lparr>heap := (heap connected)[1 := OSockFile \<lparr>pending = ''c'', ending = Eof\<rparr>,
            2 := OStringIO \<lparr>buf = ''a'' @ [nl] @ ''b'' @ [nl], pos = 0\<rparr>]\<rparr>)) ''other'' = None
   \<and> (\<exists>b' rd' data.
         heap (connected\<lparr>heap := (heap connected)[1 := OSockFile \<lparr>pending = ''c'', ending = Eof\<rparr>,
            2 := OStringIO \<lparr>buf = ''a'' @ [nl] @ ''b'' @ [nl], pos = 0\<rparr>]\<rparr>) ! 2 = OStringIO b' \<and>
         heap (connected\<lparr>heap := (heap connected)[1 := OSockFile \<lparr>pending = ''c'', ending = Eof\<rparr>,
            2 := OStringIO \<lparr>buf = ''a'' @ [nl] @ ''b'' @ [nl], pos = 0\<rparr>]\<rparr>) ! 1 = OSockFile rd' \<and>
         pending \<lparr>pending = ''a'' @ [nl] @ ''b'' @ [nl] @ ''c'', ending = Eof\<rparr> = data @ pending rd' \<and>
         buf b' = buf \<lparr>buf = [], pos = 0\<rparr> @ data \<and> pos b' = pos \<lparr>buf = [], pos = 0\<rparr>)"
proof -
  let ?rd = "\<lparr>pending = ''a'' @ [nl] @ ''b'' @ [nl] @ ''c'', ending = Eof\<rparr>"
  let ?b = "\<lparr>buf = [], pos = 0\<rparr>"
  let ?w' = "connected\<lparr>heap := (heap connected)[1 := OSockFile \<lparr>pending = ''c'', ending = Eof\<rparr>,
            2 := OStringIO \<lparr>buf = ''a'' @ [nl] @ ''b'' @ [nl], pos = 0\<rparr>]\<rparr>"
  note inst = receive_ignores_name [where t = receive_two and a = "''other''" and w = connected
      and r = Ok and w' = ?w' and sk = "VRef 0" and out = 2 and b = ?b and f = 1 and rd = ?rd
      and ls = "[''a'' @ [nl], ''b'' @ [nl]]" and rest = "''c''"]
  have peer: "map_of (env connected) ''SOCKET'' = Some (VRef 0) \<and>
      map_of (env connected) ''STDOUT'' = Some (VRef 2) \<and> 2 < length (heap connected) \<and>
      heap connected ! 2 = OStringIO ?b \<and>
      map_of (env connected) ''SOCKET_FILE'' = Some (VRef 1) \<and>
      1 < length (heap connected) \<and> heap connected ! 1 = OSockFile ?rd \<and>
      pending ?rd = concat [''a'' @ [nl], ''b'' @ [nl]] @ ''c'' \<and>
      (\<forall>l\<in>set [''a'' @ [nl], ''b'' @ [nl]]. is_line l) \<and>
      length [''a'' @ [nl], ''b'' @ [nl]] = nat (numlines receive_two)"
    by (simp add: connected_def receive_two_def is_line_def nl_def)
  from inst [THEN conjunct2, THEN conjunct2, THEN conjunct2, THEN mp, OF peer]
  have run: "Receive_run (receive_two\<lparr>name := ''other''\<rparr>) connected = Some (Ok, ?w')"
    by simp
  from inst [THEN conjunct2, THEN conjunct1, THEN mp, OF run] have "env ?w' = env connected"
    by (rule conjunct1)
  then have other: "map_of (env ?w') ''other'' = None"
    by (simp add: connected_def)
  have channel: "Receive_run (receive_two\<lparr>name := ''other''\<rparr>) connected = Some (Ok, ?w') \<and>
      map_of (env connected) ''STDOUT'' = Some (VRef 2) \<and> 2 < length (heap connected) \<and>
      heap connected ! 2 = OStringIO ?b \<and>
      map_of (env connected) ''SOCKET_FILE'' = Some (VRef 1) \<and>
      1 < length (heap connected) \<and> heap connected ! 1 = OSockFile ?rd"
    using run peer by blast
  note moved = inst [THEN conjunct2, THEN conjunct2, THEN conjunct1, THEN mp, OF channel]
  show ?thesis
    by (intro conjI inst [THEN conjunct1] run other moved)
qed

section \<open>Structured extraction\<close>

lemma with_else_example: "with_else ''A if YES'' = ''A if YES else None''"
  by (simp add: with_else_def endswith_def)

lemma strip_example: "strip '' b'' = ''b'' \<and> strip ''yes '' = ''yes''"
  by (simp add: strip_def is_space_def)

text \<open>Two queries with different conversions: both fields are converted by \<^verbatim>\<open>len\<close>, the
  conversion of the second.\<close>

lemma two_queries_run:
  "ParseCSV_run demo_reader demo_eval two_queries seeded =
    (Ok, seeded\<lparr>env := [(''x'', VStr ''42''), (''picked'', VList [VInt 1, VInt 1]), (''rest'', VInt 1)]\<rparr>)"
  by (simp add: ParseCSV_run_def demo_reader_def demo_eval_def two_queries_def get_def table_def
      seeded_def with_else_def endswith_def strip_def is_space_def getitem_def setitem_def
      str_or_text_def py_len_def same_def)


lemma csv_collapse_Nil: "csv_collapse cv [] w = (Ok, w)"
  by (cases cv) simp_all

lemma csv_fields_conversion:
  "csv_fields ev row fs (results, cv) = Inr (results', cv') \<Longrightarrow>
     cv' = (if fs = [] then cv else Some (snd (snd (last fs))))"
proof (induction fs arbitrary: results cv)
  case Nil
  then show ?case by simp
next
  case (Cons b fs)
  obtain expr key conversion where b: "b = (expr, key, conversion)"
    by (cases b)
  from Cons.prems b obtain result where r: "ev (with_else expr) row = Inr result"
    by (cases "ev (with_else expr) row") auto
  from Cons.prems b r obtain results1 where
    rec: "csv_fields ev row fs (results1, Some conversion) = Inr (results', cv')"
    by simp
  from Cons.IH [OF rec] b show ?case by simp
qed

lemma csv_fields_unchanged:
  "csv_fields ev row [] st = Inr st' \<Longrightarrow> st' = st"
  by simp

lemma csv_rows_conversion:
  "csv_rows ev rows fs (results, cv) = Inr (results', cv') \<Longrightarrow>
     (if rows = [] \<or> fs = [] then cv' = cv \<and> results' = results
      else cv' = Some (snd (snd (last fs))))"
proof (induction rows arbitrary: results cv)
  case Nil
  then show ?case by simp
next
  case (Cons row rows)
  from Cons.prems obtain cleanup_row where c: "cleanup row [] = Inr cleanup_row"
    by (cases "cleanup row []") auto
  from Cons.prems c obtain results1 cv1 where
    f: "csv_fields ev cleanup_row fs (results, cv) = Inr (results1, cv1)"
    by (cases "csv_fields ev cleanup_row fs (results, cv)") auto
  from Cons.prems c f have rec: "csv_rows ev rows fs (results1, cv1) = Inr (results', cv')"
    by simp
  show ?case
  proof (cases "fs = []")
    case True
    with f have "results1 = results" and "cv1 = cv"
      by simp_all
    with Cons.IH [OF rec] True show ?thesis by simp
  next
    case False
    with csv_fields_conversion [OF f] have "cv1 = Some (snd (snd (last fs)))"
      by simp
    with Cons.IH [OF rec] False show ?thesis
      by (auto split: if_splits)
  qed
qed

text \<open>What the loops gather does not depend on the conversions of the bindings.\<close>

lemma csv_fields_recode:
  "map_sum id fst (csv_fields ev row (recode c fs) (results, cv1)) =
   map_sum id fst (csv_fields ev row fs (results, cv2))"
proof (induction fs arbitrary: results cv1 cv2)
  case Nil
  then show ?case by (simp add: recode_def)
next
  case (Cons b fs)
  obtain expr key conversion where b: "b = (expr, key, conversion)"
    by (cases b)
  show ?case
  proof (cases "ev (with_else expr) row")
    case (Inl e)
    with b show ?thesis by (simp add: recode_def)
  next
    case (Inr result)
    with b Cons.IH show ?thesis
      by (simp add: recode_def)
  qed
qed

lemma csv_rows_recode:
  "map_sum id fst (csv_rows ev rows (recode c fs) (results, cv1)) =
   map_sum id fst (csv_rows ev rows fs (results, cv2))"
proof (induction rows arbitrary: results cv1 cv2)
  case Nil
  then show ?case by simp
next
  case (Cons row rows)
  show ?case
  proof (cases "cleanup row []")
    case (Inl e)
    then show ?thesis by simp
  next
    case c: (Inr cleanup_row)
    note fields = csv_fields_recode [of ev cleanup_row c fs results cv1 cv2]
    show ?thesis
    proof (cases "csv_fields ev cleanup_row fs (results, cv2)")
      case (Inl e)
      with fields obtain e' where "csv_fields ev cleanup_row (recode c fs) (results, cv1) = Inl e'"
        by (cases "csv_fields ev cleanup_row (recode c fs) (results, cv1)") auto
      with fields Inl c show ?thesis by simp
    next
      case (Inr st)
      obtain results1 cv2' where st: "st = (results1, cv2')"
        by (cases st)
      from fields Inr st obtain cv1' where
        "csv_fields ev cleanup_row (recode c fs) (results, cv1) = Inr (results1, cv1')"
        by (cases "csv_fields ev cleanup_row (recode c fs) (results, cv1)") auto
      with Inr st c Cons.IH [of results1 cv1' cv2'] show ?thesis by simp
    qed
  qed
qed

lemma ParseCSV_run_last:
  "ParseCSV_run reader ev (t\<lparr>p_fields := fs @ [(expr, key, c)]\<rparr>) w =
     (case reader (p_file t) of
        Inl e \<Rightarrow> (Raised e, w)
      | Inr rows \<Rightarrow>
         (case csv_rows ev rows (fs @ [(expr, key, c)]) ([], None) of
            Inl e \<Rightarrow> (Raised e, w)
          | Inr (results, cv) \<Rightarrow> csv_collapse (Some c) results w))"
proof (cases "reader (p_file t)")
  case (Inl e)
  then show ?thesis by (simp add: ParseCSV_run_def)
next
  case rows: (Inr rows)
  show ?thesis
  proof (cases "csv_rows ev rows (fs @ [(expr, key, c)]) ([], None)")
    case (Inl e)
    with rows show ?thesis by (simp add: ParseCSV_run_def)
  next
    case (Inr st)
    obtain results cv where st: "st = (results, cv)"
      by (cases st)
    from csv_rows_conversion [OF Inr [unfolded st]]
    have "csv_collapse cv results w = csv_collapse (Some c) results w"
      by (cases "rows = []") (simp_all add: csv_collapse_Nil)
    with rows Inr st show ?thesis by (simp add: ParseCSV_run_def)
  qed
qed

lemma ParseCSV_run_recode:
  "ParseCSV_run reader ev (t\<lparr>p_fields := fs @ [(expr, key, c)]\<rparr>) w =
     (case reader (p_file t) of
        Inl e \<Rightarrow> (Raised e, w)
      | Inr rows \<Rightarrow>
         (case csv_rows ev rows (fs @ [(expr, key, c)]) ([], None) of
            Inl e \<Rightarrow> (Raised e, w)
          | Inr (results, cv) \<Rightarrow> csv_collapse (Some c) results w))
   \<and> ParseCSV_run reader ev (t\<lparr>p_fields := fs @ [(expr, key, c)]\<rparr>) w =
     ParseCSV_run reader ev (t\<lparr>p_fields := recode c fs @ [(expr, key, c)]\<rparr>) w"
proof -
  have rc: "recode c (fs @ [(expr, key, c)]) = recode c fs @ [(expr, key, c)]"
    by (simp add: recode_def)
  have "ParseCSV_run reader ev (t\<lparr>p_fields := recode c fs @ [(expr, key, c)]\<rparr>) w =
      ParseCSV_run reader ev (t\<lparr>p_fields := fs @ [(expr, key, c)]\<rparr>) w"
  proof (cases "reader (p_file t)")
    case (Inl e)
    then show ?thesis by (simp add: ParseCSV_run_def)
  next
    case rows: (Inr rows)
    note gathered = csv_rows_recode [of ev rows c "fs @ [(expr, key, c)]" "[]" None None,
        unfolded rc]
    show ?thesis
    proof (cases "csv_rows ev rows (fs @ [(expr, key, c)]) ([], None)")
      case (Inl e)
      with gathered obtain e' where
        "csv_rows ev rows (recode c fs @ [(expr, key, c)]) ([], None) = Inl e'"
        by (cases "csv_rows ev rows (recode c fs @ [(expr, key, c)]) ([], None)") auto
      with gathered Inl rows show ?thesis
        by (simp add: ParseCSV_run_last)
    next
      case (Inr st)
      obtain results cv where st: "st = (results, cv)"
        by (cases st)
      from gathered Inr st obtain cv' where
        "csv_rows ev rows (recode c fs @ [(expr, key, c)]) ([], None) = Inr (results, cv')"
        by (cases "csv_rows ev rows (recode c fs @ [(expr, key, c)]) ([], None)") auto
      with Inr st rows show ?thesis
        by (simp add: ParseCSV_run_last)
    qed
  qed
  with ParseCSV_run_last [where reader = reader and ev = ev and t = t and fs = fs
      and expr = expr and key = key and c = c and w = w] show ?thesis
    by simp
qed


lemma collapse_one: "collapse c [v] = c v"
  by (simp add: collapse_def)

lemma collapse_many:
  "length vs \<noteq> 1 \<Longrightarrow>
     collapse c vs = (case map_exn c vs of Inl e \<Rightarrow> Inl e | Inr cs \<Rightarrow> Inr (VList cs))"
  by (cases vs rule: list.exhaust; cases "tl vs") (auto simp: collapse_def)

lemma map_exn_length: "map_exn f xs = Inr ys \<Longrightarrow> length ys = length xs"
  by (induction xs arbitrary: ys) (auto split: sum.splits)

lemma map_exn_single:
  "map_exn f [x] = (case f x of Inl e \<Rightarrow> Inl e | Inr y \<Rightarrow> Inr [y])"
  by (simp split: sum.splits)

lemma setitem_lookup: "map_of (env (setitem k v w)) = (map_of (env w))(k \<mapsto> v)"
  by (simp add: setitem_def AList.update_conv')

subsection \<open>ParseXML\<close>

lemma xml_fields_append:
  "xml_fields xpath tree (pre @ fs) w =
     (case xml_fields xpath tree pre w of
        (Ok, w1) \<Rightarrow> xml_fields xpath tree fs w1
      | (Raised e, w1) \<Rightarrow> (Raised e, w1))"
proof (induction pre arbitrary: w)
  case Nil
  then show ?case by simp
next
  case (Cons b pre)
  obtain q key conversion where b: "b = (q, key, conversion)"
    by (cases b)
  show ?case
    unfolding b by (simp add: Cons.IH split: sum.splits)
qed

lemma xml_fields_step:
  assumes "xml_fields xpath tree ((q, key, c) # post) w = (Ok, w')"
    and "xpath tree q = Inr values"
  shows "\<exists>ts r. map_exn str_or_text values = Inr ts \<and> collapse c ts = Inr r \<and>
           xml_fields xpath tree post (setitem key r w) = (Ok, w')"
proof (cases "length values = 1")
  case True
  then obtain v where v: "values = [v]"
    by (cases "values") auto
  from assms v obtain t r where "str_or_text v = Inr t" and "c t = Inr r"
    and "xml_fields xpath tree post (setitem key r w) = (Ok, w')"
    by (auto split: sum.splits)
  with v show ?thesis
    by (auto simp: collapse_one)
next
  case False
  with assms obtain ts cs where ts: "map_exn str_or_text values = Inr ts"
    and cs: "map_exn c ts = Inr cs"
    and rest: "xml_fields xpath tree post (setitem key (VList cs) w) = (Ok, w')"
    by (auto split: sum.splits)
  from False map_exn_length [OF ts] have "length ts \<noteq> 1"
    by simp
  with cs have "collapse c ts = Inr (VList cs)"
    by (simp add: collapse_many)
  with ts rest show ?thesis by blast
qed

lemma xml_fields_keeps:
  "xml_fields xpath tree fs w = (Ok, w') \<Longrightarrow> k \<notin> set (map (fst \<circ> snd) fs) \<Longrightarrow>
     map_of (env w') k = map_of (env w) k"
proof (induction fs arbitrary: w)
  case Nil
  then show ?case by simp
next
  case (Cons b fs)
  obtain q key conversion where b: "b = (q, key, conversion)"
    by (cases b)
  from Cons.prems b obtain found where v: "xpath tree q = Inr found"
    by (cases "xpath tree q") auto
  from xml_fields_step [OF Cons.prems(1) [unfolded b] v] obtain r where
    "xml_fields xpath tree fs (setitem key r w) = (Ok, w')"
    by blast
  from Cons.IH [OF this] Cons.prems(2) b show ?case
    by (simp add: setitem_lookup)
qed

lemma xml_collapse:
  assumes run: "ParseXML_run parse xpath t w = (Ok, w')"
    and tree: "parse (p_file t) = Inr tree"
    and fields: "p_fields t = pre @ (q, k, c) # post"
    and last: "k \<notin> set (map (fst \<circ> snd) post)"
    and vals: "xpath tree q = Inr values"
  shows "\<exists>ts r. map_exn str_or_text values = Inr ts \<and> collapse c ts = Inr r \<and>
           map_of (env w') k = Some r"
proof -
  from run tree fields have "xml_fields xpath tree (pre @ (q, k, c) # post) w = (Ok, w')"
    by (simp add: ParseXML_run_def)
  then obtain w1 where "xml_fields xpath tree ((q, k, c) # post) w1 = (Ok, w')"
    by (auto simp: xml_fields_append split: prod.splits outcome.splits)
  from xml_fields_step [OF this vals] obtain ts r where
    ts: "map_exn str_or_text values = Inr ts" and r: "collapse c ts = Inr r"
    and rest: "xml_fields xpath tree post (setitem k r w1) = (Ok, w')"
    by blast
  from xml_fields_keeps [OF rest last] have "map_of (env w') k = Some r"
    by (simp add: setitem_lookup)
  with ts r show ?thesis by blast
qed

subsection \<open>ParseJSON\<close>

lemma json_fields_append:
  "json_fields jfind content (pre @ fs) w =
     (case json_fields jfind content pre w of
        (Ok, w1) \<Rightarrow> json_fields jfind content fs w1
      | (Raised e, w1) \<Rightarrow> (Raised e, w1))"
proof (induction pre arbitrary: w)
  case Nil
  then show ?case by simp
next
  case (Cons b pre)
  obtain q key conversion where b: "b = (q, key, conversion)"
    by (cases b)
  show ?case
    unfolding b by (simp add: Cons.IH split: sum.splits val.splits)
qed

lemma json_fields_step:
  assumes "json_fields jfind content ((q, key, c) # post) w = (Ok, w')"
    and "jfind q content = Inr values"
  shows "\<exists>r. (case values of
                 [VList xs] \<Rightarrow> (case map_exn c xs of Inl e \<Rightarrow> Inl e | Inr cs \<Rightarrow> Inr (VList cs))
               | _ \<Rightarrow> collapse c values) = Inr r \<and>
           json_fields jfind content post (setitem key r w) = (Ok, w')"
proof (cases "length values = 1")
  case True
  then obtain v where v: "values = [v]"
    by (cases "values") auto
  show ?thesis
  proof (cases v)
    case (VList xs)
    with assms v show ?thesis
      by (auto split: sum.splits)
  qed (use assms v in \<open>auto simp: collapse_one split: sum.splits\<close>)
next
  case False
  with assms obtain cs where cs: "map_exn c values = Inr cs"
    and rest: "json_fields jfind content post (setitem key (VList cs) w) = (Ok, w')"
    by (auto split: sum.splits)
  from False cs have "collapse c values = Inr (VList cs)"
    by (simp add: collapse_many)
  moreover from False have "(case values of
                 [VList xs] \<Rightarrow> (case map_exn c xs of Inl e \<Rightarrow> Inl e | Inr cs \<Rightarrow> Inr (VList cs))
               | _ \<Rightarrow> collapse c values) = collapse c values"
    by (auto split: list.splits val.splits)
  ultimately show ?thesis using rest by auto
qed

lemma json_fields_keeps:
  "json_fields jfind content fs w = (Ok, w') \<Longrightarrow> k \<notin> set (map (fst \<circ> snd) fs) \<Longrightarrow>
     map_of (env w') k = map_of (env w) k"
proof (induction fs arbitrary: w)
  case Nil
  then show ?case by simp
next
  case (Cons b fs)
  obtain q key conversion where b: "b = (q, key, conversion)"
    by (cases b)
  from Cons.prems b obtain found where v: "jfind q content = Inr found"
    by (cases "jfind q content") auto
  from json_fields_step [OF Cons.prems(1) [unfolded b] v] obtain r where
    "json_fields jfind content fs (setitem key r w) = (Ok, w')"
    by blast
  from Cons.IH [OF this] Cons.prems(2) b show ?case
    by (simp add: setitem_lookup)
qed

lemma json_collapse:
  assumes run: "ParseJSON_run load jfind t w = (Ok, w')"
    and content: "load (p_file t) = Inr content"
    and fields: "p_fields t = pre @ (q, k, c) # post"
    and last: "k \<notin> set (map (fst \<circ> snd) post)"
    and vals: "jfind q content = Inr values"
  shows "\<exists>r. (case values of
                 [VList xs] \<Rightarrow> (case map_exn c xs of Inl e \<Rightarrow> Inl e | Inr cs \<Rightarrow> Inr (VList cs))
               | _ \<Rightarrow> collapse c values) = Inr r \<and>
           map_of (env w') k = Some r"
proof -
  from run content fields
  have "json_fields jfind content (pre @ (q, k, c) # post) w = (Ok, w')"
    by (simp add: ParseJSON_run_def)
  then obtain w1 where "json_fields jfind content ((q, k, c) # post) w1 = (Ok, w')"
    by (auto simp: json_fields_append split: prod.splits outcome.splits)
  from json_fields_step [OF this vals] obtain r where
    r: "(case values of
                 [VList xs] \<Rightarrow> (case map_exn c xs of Inl e \<Rightarrow> Inl e | Inr cs \<Rightarrow> Inr (VList cs))
               | _ \<Rightarrow> collapse c values) = Inr r"
    and rest: "json_fields jfind content post (setitem k r w1) = (Ok, w')"
    by blast
  from json_fields_keeps [OF rest last] have "map_of (env w') k = Some r"
    by (simp add: setitem_lookup)
  with r show ?thesis by blast
qed


subsection \<open>ParseCSV\<close>

lemma gathered_gathered: "gathered (gathered m xs) ys = gathered m (xs @ ys)"
  by (simp add: gathered_def)

lemma csv_fields_gathers:
  "csv_fields ev row fs (results, cv) = Inr (results', cv') \<Longrightarrow>
     map_of results' k = gathered (map_of results k) (hits ev row fs k) \<and>
     (distinct (map fst results) \<longrightarrow> distinct (map fst results'))"
proof (induction fs arbitrary: results cv)
  case Nil
  then show ?case by (simp add: gathered_def)
next
  case (Cons b fs)
  obtain expr key conversion where b: "b = (expr, key, conversion)"
    by (cases b)
  from Cons.prems b obtain result where r: "ev (with_else expr) row = Inr result"
    by (cases "ev (with_else expr) row") auto
  define results1 where "results1 =
    (if result \<noteq> VNone
     then (case map_of results key of
             None \<Rightarrow> AList.update key [result] results
           | Some vs \<Rightarrow> AList.update key (vs @ [result]) results)
     else results)"
  from Cons.prems b r have
    rec: "csv_fields ev row fs (results1, Some conversion) = Inr (results', cv')"
    by (simp add: results1_def)
  have one: "map_of results1 k =
      gathered (map_of results k) (if result \<noteq> VNone \<and> key = k then [result] else [])"
    by (auto simp: results1_def gathered_def AList.update_conv' split: option.splits)
  have dist: "distinct (map fst results) \<longrightarrow> distinct (map fst results1)"
    by (auto simp: results1_def AList.distinct_update split: option.splits)
  from Cons.IH [OF rec] one dist b r show ?case
    by (simp add: gathered_gathered)
qed

lemma csv_rows_gathers:
  "csv_rows ev rows fs (results, cv) = Inr (results', cv') \<Longrightarrow>
     map_of results' k = gathered (map_of results k) (csv_hits ev rows fs k) \<and>
     (distinct (map fst results) \<longrightarrow> distinct (map fst results'))"
proof (induction rows arbitrary: results cv)
  case Nil
  then show ?case by (simp add: gathered_def)
next
  case (Cons row rows)
  from Cons.prems obtain cleanup_row where c: "cleanup row [] = Inr cleanup_row"
    by (cases "cleanup row []") auto
  from Cons.prems c obtain results1 cv1 where
    f: "csv_fields ev cleanup_row fs (results, cv) = Inr (results1, cv1)"
    by (cases "csv_fields ev cleanup_row fs (results, cv)") auto
  from Cons.prems c f have rec: "csv_rows ev rows fs (results1, cv1) = Inr (results', cv')"
    by simp
  from Cons.IH [OF rec] csv_fields_gathers [OF f, of k] c show ?case
    by (simp add: gathered_gathered)
qed

lemma hits_Nil: "hits ev row [] k = []"
  by simp

lemma csv_hits_no_fields: "csv_hits ev rows [] k = []"
  by (induction rows) (auto split: sum.splits)

lemma csv_collapse_step:
  assumes "csv_collapse (Some c) ((key, vs) # rs) w = (Ok, w')"
  shows "\<exists>ts r. map_exn str_or_text vs = Inr ts \<and> collapse c ts = Inr r \<and>
           csv_collapse (Some c) rs (setitem key r w) = (Ok, w')"
proof (cases "length vs = 1")
  case True
  then obtain v where v: "vs = [v]"
    by (cases vs) auto
  from assms v obtain t r where "str_or_text v = Inr t" and "c t = Inr r"
    and "csv_collapse (Some c) rs (setitem key r w) = (Ok, w')"
    by (auto split: sum.splits)
  with v show ?thesis
    by (auto simp: collapse_one)
next
  case False
  with assms obtain ts cs where ts: "map_exn str_or_text vs = Inr ts"
    and cs: "map_exn c ts = Inr cs"
    and rest: "csv_collapse (Some c) rs (setitem key (VList cs) w) = (Ok, w')"
    by (auto split: sum.splits)
  from False map_exn_length [OF ts] have "length ts \<noteq> 1"
    by simp
  with cs have "collapse c ts = Inr (VList cs)"
    by (simp add: collapse_many)
  with ts rest show ?thesis by blast
qed

lemma csv_collapse_keeps:
  "csv_collapse cv rs w = (Ok, w') \<Longrightarrow> map_of rs k = None \<Longrightarrow>
     map_of (env w') k = map_of (env w) k"
proof (induction rs arbitrary: w)
  case Nil
  then show ?case by (simp add: csv_collapse_Nil)
next
  case (Cons kv rs)
  obtain key vs where kv: "kv = (key, vs)"
    by (cases kv)
  from Cons.prems kv obtain c where cv: "cv = Some c"
    by (cases cv) auto
  from csv_collapse_step [OF Cons.prems(1) [unfolded kv cv]] obtain r where
    rest: "csv_collapse (Some c) rs (setitem key r w) = (Ok, w')"
    by blast
  from Cons.prems(2) kv have "key \<noteq> k" and "map_of rs k = None"
    by (auto split: if_splits)
  with Cons.IH [OF rest [folded cv]] show ?case
    by (simp add: setitem_lookup)
qed

lemma csv_collapse_lookup:
  "csv_collapse (Some c) rs w = (Ok, w') \<Longrightarrow> distinct (map fst rs) \<Longrightarrow>
   map_of rs k = Some vs \<Longrightarrow>
     \<exists>ts r. map_exn str_or_text vs = Inr ts \<and> collapse c ts = Inr r \<and>
       map_of (env w') k = Some r"
proof (induction rs arbitrary: w)
  case Nil
  then show ?case by simp
next
  case (Cons kv rs)
  obtain key vs' where kv: "kv = (key, vs')"
    by (cases kv)
  from csv_collapse_step [OF Cons.prems(1) [unfolded kv]] obtain ts r where
    ts: "map_exn str_or_text vs' = Inr ts" and r: "collapse c ts = Inr r"
    and rest: "csv_collapse (Some c) rs (setitem key r w) = (Ok, w')"
    by blast
  show ?case
  proof (cases "key = k")
    case True
    with Cons.prems kv have "vs' = vs" and "map_of rs k = None"
      by (auto simp: map_of_eq_None_iff)
    with csv_collapse_keeps [OF rest, of k] True ts r show ?thesis
      by (auto simp: setitem_lookup)
  next
    case False
    with Cons.prems kv have "distinct (map fst rs)" and "map_of rs k = Some vs"
      by auto
    from Cons.IH [OF rest this] show ?thesis .
  qed
qed

lemma csv_collapse_rule:
  assumes run: "ParseCSV_run reader ev t w = (Ok, w')"
    and rows: "reader (p_file t) = Inr rows"
    and conv: "\<forall>b\<in>set (p_fields t). snd (snd b) = c"
    and some: "csv_hits ev rows (p_fields t) k \<noteq> []"
  shows "\<exists>ts r. map_exn str_or_text (csv_hits ev rows (p_fields t) k) = Inr ts \<and>
           collapse c ts = Inr r \<and> map_of (env w') k = Some r"
proof -
  from run rows obtain results cv where
    loops: "csv_rows ev rows (p_fields t) ([], None) = Inr (results, cv)"
    and coll: "csv_collapse cv results w = (Ok, w')"
    by (auto simp: ParseCSV_run_def split: sum.splits)
  from some have ne: "rows \<noteq> []" "p_fields t \<noteq> []"
    by (auto simp: csv_hits_no_fields)
  with csv_rows_conversion [OF loops] conv have cv: "cv = Some c"
    by simp
  from csv_rows_gathers [OF loops, of k] some
  have res: "map_of results k = Some (csv_hits ev rows (p_fields t) k)"
    and dist: "distinct (map fst results)"
    by (simp_all add: gathered_def)
  from csv_collapse_lookup [OF coll [unfolded cv] dist res] show ?thesis .
qed

lemma csv_no_match_keeps:
  assumes run: "ParseCSV_run reader ev t w = (Ok, w')"
    and rows: "reader (p_file t) = Inr rows"
    and none: "csv_hits ev rows (p_fields t) k = []"
  shows "map_of (env w') k = map_of (env w) k"
proof -
  from run rows obtain results cv where
    loops: "csv_rows ev rows (p_fields t) ([], None) = Inr (results, cv)"
    and coll: "csv_collapse cv results w = (Ok, w')"
    by (auto simp: ParseCSV_run_def split: sum.splits)
  from csv_rows_gathers [OF loops, of k] none have "map_of results k = None"
    by (simp add: gathered_def)
  from csv_collapse_keeps [OF coll this] show ?thesis .
qed


text \<open>
  C10: after \<^verbatim>\<open>get(expr, key, c)\<close> as the last registration, \<^verbatim>\<open>ParseCSV.run\<close> converts
  every field of \<^verbatim>\<open>results\<close> with \<open>c\<close>, whatever conversions the earlier bindings have: its
  result is the one of the task whose bindings all have the conversion \<open>c\<close>.
\<close>

theorem csv_conversion_of_last_binding:
  "ParseCSV_run reader ev (get expr key c t) w =
     (case reader (p_file t) of
        Inl e \<Rightarrow> (Raised e, w)
      | Inr rows \<Rightarrow>
         (case csv_rows ev rows (p_fields t @ [(expr, key, c)]) ([], None) of
            Inl e \<Rightarrow> (Raised e, w)
          | Inr (results, cv) \<Rightarrow> csv_collapse (Some c) results w))
   \<and> ParseCSV_run reader ev (get expr key c t) w =
     ParseCSV_run reader ev (get expr key c (t\<lparr>p_fields := recode c (p_fields t)\<rparr>)) w"
proof -
  have g1: "get expr key c t = t\<lparr>p_fields := p_fields t @ [(expr, key, c)]\<rparr>"
    by (simp add: get_def)
  have g2: "get expr key c (t\<lparr>p_fields := recode c (p_fields t)\<rparr>) =
      t\<lparr>p_fields := recode c (p_fields t) @ [(expr, key, c)]\<rparr>"
    by (simp add: get_def)
  show ?thesis
    unfolding g1 g2 by (rule ParseCSV_run_recode)
qed

theorem csv_conversion_of_last_binding_witness:
  "ParseCSV_run demo_reader demo_eval two_queries seeded =
     ParseCSV_run demo_reader demo_eval csv_queries seeded
   \<and> ParseCSV_run demo_reader demo_eval two_queries seeded =
     (Ok, seeded\<lparr>env := [(''x'', VStr ''42''), (''picked'', VList [VInt 1, VInt 1]),
        (''rest'', VInt 1)]\<rparr>)"
proof -
  let ?t = "get ''A if YES'' ''picked'' same \<lparr>p_file = ''out.csv'', p_fields = []\<rparr>"
  have "get ''A if NO'' ''rest'' py_len (?t\<lparr>p_fields := recode py_len (p_fields ?t)\<rparr>) =
      csv_queries"
    by (simp add: get_def recode_def csv_queries_def)
  with csv_conversion_of_last_binding [where reader = demo_reader and ev = demo_eval
      and expr = "''A if NO''" and key = "''rest''" and c = py_len and t = ?t and w = seeded,
      THEN conjunct2]
  have "ParseCSV_run demo_reader demo_eval two_queries seeded =
     ParseCSV_run demo_reader demo_eval csv_queries seeded"
    by (simp add: two_queries_def)
  with two_queries_run show ?thesis by simp
qed

text \<open>
  C1, as the code has it. In each case the task has returned normally.
  \<^item> \<^verbatim>\<open>ParseXML\<close>: the field of a binding that no later binding overwrites holds the
    collapse of the matched values, where the value of a matched element is its text.
  \<^item> \<^verbatim>\<open>ParseJSON\<close>: likewise, except that a single match whose value is a list gives the
    list of the converted elements of that list.
  \<^item> \<^verbatim>\<open>ParseCSV\<close>, when all bindings have the same conversion: a field for which at least
    one value was gathered holds the collapse of the gathered values.
\<close>

theorem extraction_collapse_rule:
  "(ParseXML_run parse xpath t w = (Ok, w') \<and> parse (p_file t) = Inr tree \<and>
    p_fields t = pre @ (q, k, c) # post \<and> k \<notin> set (map (fst \<circ> snd) post) \<and>
    xpath tree q = Inr vs \<longrightarrow>
      (\<exists>ts r. map_exn str_or_text vs = Inr ts \<and> collapse c ts = Inr r \<and>
         map_of (env w') k = Some r))
 \<and> (ParseJSON_run load jfind t w = (Ok, w') \<and> load (p_file t) = Inr content \<and>
    p_fields t = pre @ (q, k, c) # post \<and> k \<notin> set (map (fst \<circ> snd) post) \<and>
    jfind q content = Inr vs \<longrightarrow>
      (\<exists>r. (case vs of
               [VList xs] \<Rightarrow> (case map_exn c xs of Inl e \<Rightarrow> Inl e | Inr cs \<Rightarrow> Inr (VList cs))
             | _ \<Rightarrow> collapse c vs) = Inr r \<and>
         map_of (env w') k = Some r))
 \<and> (ParseCSV_run reader ev t w = (Ok, w') \<and> reader (p_file t) = Inr rows \<and>
    (\<forall>b\<in>set (p_fields t). snd (snd b) = c) \<and> csv_hits ev rows (p_fields t) k \<noteq> [] \<longrightarrow>
      (\<exists>ts r. map_exn str_or_text (csv_hits ev rows (p_fields t) k) = Inr ts \<and>
         collapse c ts = Inr r \<and> map_of (env w') k = Some r))"
  by (intro conjI impI; (elim conjE)?) (rule xml_collapse json_collapse csv_collapse_rule; assumption)+

text \<open>
  The rule as the specification states it fails for \<^verbatim>\<open>ParseJSON\<close>: the query \<^verbatim>\<open>$\<close>
  matches exactly one value, a list of two strings, whose \<^verbatim>\<open>len\<close> is \<open>2\<close>, and the field
  becomes the list of the lengths of the strings. It fails for \<^verbatim>\<open>ParseCSV\<close> too: a query
  that matches no row leaves the environment without its field.
\<close>

theorem extraction_collapse_rule_counterexample:
  "demo_load ''out.json'' = Inr (VList [VStr ''ab'', VStr ''c''])
   \<and> demo_jfind ''$'' (VList [VStr ''ab'', VStr ''c'']) = Inr [VList [VStr ''ab'', VStr ''c'']]
   \<and> py_len (VList [VStr ''ab'', VStr ''c'']) = Inr (VInt 2)
   \<and> ParseJSON_run demo_load demo_jfind json_whole seeded =
       (Ok, seeded\<lparr>env := [(''x'', VStr ''42''), (''n'', VList [VInt 2, VInt 1])]\<rparr>)
   \<and> csv_hits demo_eval table (p_fields csv_no_match) ''maybe'' = []
   \<and> ParseCSV_run demo_reader demo_eval csv_no_match seeded = (Ok, seeded)"
  by (simp add: ParseJSON_run_def demo_load_def demo_jfind_def json_whole_def get_def py_len_def
      seeded_def setitem_def ParseCSV_run_def demo_reader_def demo_eval_def csv_no_match_def
      table_def with_else_def endswith_def strip_def is_space_def getitem_def)


theorem extraction_collapse_rule_witness:
  "ParseXML_run demo_parse demo_xpath xml_queries seeded =
     (Ok, seeded\<lparr>env := [(''x'', VStr ''42''), (''n'', VInt 1), (''ys'', VList [VInt 2, VInt 1]),
        (''zs'', VList [])]\<rparr>)
   \<and> (\<exists>ts r. map_exn str_or_text [VElem (VStr ''3'')] = Inr ts \<and> collapse py_len ts = Inr r \<and>
         map_of (env (seeded\<lparr>env := [(''x'', VStr ''42''), (''n'', VInt 1),
           (''ys'', VList [VInt 2, VInt 1]), (''zs'', VList [])]\<rparr>)) ''n'' = Some r)
   \<and> ParseJSON_run demo_load demo_jfind json_queries seeded =
     (Ok, seeded\<lparr>env := [(''x'', VStr ''42''), (''first'', VInt 2),
        (''all'', VList [VInt 2, VInt 1]), (''none'', VList [])]\<rparr>)
   \<and> (\<exists>r. collapse py_len [VStr ''ab'', VStr ''c''] = Inr r \<and>
         map_of (env (seeded\<lparr>env := [(''x'', VStr ''42''), (''first'', VInt 2),
           (''all'', VList [VInt 2, VInt 1]), (''none'', VList [])]\<rparr>)) ''all'' = Some r)
   \<and> ParseCSV_run demo_reader demo_eval csv_queries seeded =
     (Ok, seeded\<lparr>env := [(''x'', VStr ''42''), (''picked'', VList [VInt 1, VInt 1]),
        (''rest'', VInt 1)]\<rparr>)
   \<and> (\<exists>ts r. map_exn str_or_text [VStr ''1'', VStr ''3''] = Inr ts \<and>
         collapse py_len ts = Inr r \<and>
         map_of (env (seeded\<lparr>env := [(''x'', VStr ''42''), (''picked'', VList [VInt 1, VInt 1]),
           (''rest'', VInt 1)]\<rparr>)) ''picked'' = Some r)"
proof -
  let ?wx = "seeded\<lparr>env := [(''x'', VStr ''42''), (''n'', VInt 1),
    (''ys'', VList [VInt 2, VInt 1]), (''zs'', VList [])]\<rparr>"
  let ?wj = "seeded\<lparr>env := [(''x'', VStr ''42''), (''first'', VInt 2),
    (''all'', VList [VInt 2, VInt 1]), (''none'', VList [])]\<rparr>"
  let ?wc = "seeded\<lparr>env := [(''x'', VStr ''42''), (''picked'', VList [VInt 1, VInt 1]),
    (''rest'', VInt 1)]\<rparr>"
  have rx: "ParseXML_run demo_parse demo_xpath xml_queries seeded = (Ok, ?wx)"
    by (simp add: ParseXML_run_def demo_parse_def demo_xpath_def xml_queries_def get_def
        seeded_def setitem_def str_or_text_def py_len_def same_def)
  have rj: "ParseJSON_run demo_load demo_jfind json_queries seeded = (Ok, ?wj)"
    by (simp add: ParseJSON_run_def demo_load_def demo_jfind_def json_queries_def get_def
        seeded_def setitem_def py_len_def)
  have rc: "ParseCSV_run demo_reader demo_eval csv_queries seeded = (Ok, ?wc)"
    by (simp add: ParseCSV_run_def demo_reader_def demo_eval_def csv_queries_def get_def table_def
      seeded_def with_else_def endswith_def strip_def is_space_def getitem_def setitem_def
      str_or_text_def py_len_def)
  have hx: "ParseXML_run demo_parse demo_xpath xml_queries seeded = (Ok, ?wx) \<and>
      demo_parse (p_file xml_queries) = Inr ''<r><x>3</x><y>ab</y><y>c</y></r>'' \<and>
      p_fields xml_queries = [] @ (''//x'', ''n'', py_len) #
        [(''//y/text()'', ''ys'', py_len), (''//z'', ''zs'', same)] \<and>
      ''n'' \<notin> set (map (fst \<circ> snd) [(''//y/text()'', ''ys'', py_len), (''//z'', ''zs'', same)]) \<and>
      demo_xpath ''<r><x>3</x><y>ab</y><y>c</y></r>'' ''//x'' = Inr [VElem (VStr ''3'')]"
    using rx by (simp add: xml_queries_def get_def demo_parse_def demo_xpath_def)
  have hj: "ParseJSON_run demo_load demo_jfind json_queries seeded = (Ok, ?wj) \<and>
      demo_load (p_file json_queries) = Inr (VList [VStr ''ab'', VStr ''c'']) \<and>
      p_fields json_queries = [(''$[0]'', ''first'', py_len)] @ (''$[*]'', ''all'', py_len) #
        [(''$.none'', ''none'', py_len)] \<and>
      ''all'' \<notin> set (map (fst \<circ> snd) [(''$.none'', ''none'', py_len)]) \<and>
      demo_jfind ''$[*]'' (VList [VStr ''ab'', VStr ''c'']) = Inr [VStr ''ab'', VStr ''c'']"
    using rj by (simp add: json_queries_def get_def demo_load_def demo_jfind_def)
  have hits: "csv_hits demo_eval table (p_fields csv_queries) ''picked'' = [VStr ''1'', VStr ''3'']"
    by (simp add: demo_eval_def csv_queries_def get_def table_def
      with_else_def endswith_def strip_def is_space_def getitem_def)
  have hc: "ParseCSV_run demo_reader demo_eval csv_queries seeded = (Ok, ?wc) \<and>
      demo_reader (p_file csv_queries) = Inr table \<and>
      (\<forall>b\<in>set (p_fields csv_queries). snd (snd b) = py_len) \<and>
      csv_hits demo_eval table (p_fields csv_queries) ''picked'' \<noteq> []"
    using rc hits by (simp add: csv_queries_def get_def demo_reader_def)
  note x = extraction_collapse_rule [where parse = demo_parse and xpath = demo_xpath and t = xml_queries
      and w = seeded and w' = ?wx and tree = "''<r><x>3</x><y>ab</y><y>c</y></r>''"
      and pre = "[]" and q = "''//x''" and k = "''n''" and c = py_len
      and post = "[(''//y/text()'', ''ys'', py_len), (''//z'', ''zs'', same)]"
      and vs = "[VElem (VStr ''3'')]", THEN conjunct1, THEN mp, OF hx]
  note j = extraction_collapse_rule [where load = demo_load and jfind = demo_jfind and t = json_queries
      and w = seeded and w' = ?wj and content = "VList [VStr ''ab'', VStr ''c'']"
      and pre = "[(''$[0]'', ''first'', py_len)]" and q = "''$[*]''" and k = "''all''"
      and c = py_len and post = "[(''$.none'', ''none'', py_len)]"
      and vs = "[VStr ''ab'', VStr ''c'']", THEN conjunct2, THEN conjunct1, THEN mp, OF hj]
  note c = extraction_collapse_rule [where reader = demo_reader and ev = demo_eval and t = csv_queries
      and w = seeded and w' = ?wc and rows = table and k = "''picked''" and c = py_len,
      THEN conjunct2, THEN conjunct2, THEN mp, OF hc]
  from j have j': "\<exists>r. collapse py_len [VStr ''ab'', VStr ''c''] = Inr r \<and>
      map_of (env ?wj) ''all'' = Some r"
    by simp
  from c have c': "\<exists>ts r. map_exn str_or_text [VStr ''1'', VStr ''3''] = Inr ts \<and>
      collapse py_len ts = Inr r \<and> map_of (env ?wc) ''picked'' = Some r"
    unfolding hits .
  show ?thesis
    by (intro conjI rx x rj j' rc c')
qed

end
